(* ===== verification/Prelude.thy ===== *)
theory Prelude
  imports Main "HOL-Library.Word" "HOL-Library.Finite_Map"
begin

text \<open>
  Shared vocabulary of the development: the machine integers, the pieces of the Rust standard
  library that the proxy uses (slices, UTF-8 validation, integer parsing, hash maps), the
  result and panic types, and the lemmas on them that carry the component proofs.

  Conventions.  A Rust \<open>String\<close>/\<open>&str\<close> is an Isabelle \<open>string\<close> whose characters are its UTF-8
  bytes; a \<open>Result<T, E>\<close> whose error is only ever printed or forwarded is \<open>err + 'a\<close> with the
  message as the error; a computation that may panic returns \<open>'a exec\<close>; an \<open>FxHashMap\<close> is an
  \<open>fmap\<close> (its iteration order is unspecified and no code depends on it).
\<close>

unbundle bit_operations_syntax

named_theorems rust_std \<open>definitions of the modelled parts of the Rust standard library\<close>
named_theorems hash_map \<open>rewrite rules for the hash map operations\<close>

section \<open>Machine integers\<close>

type_synonym u8 = "8 word"
type_synonym u16 = "16 word"
type_synonym u32 = "32 word"
type_synonym u64 = "64 word"
type_synonym usize = "64 word"

text \<open>\<open>u16::from_be_bytes\<close>, \<open>u16::to_be_bytes\<close>, \<open>checked_add\<close> and \<open>u16::try_from(usize)\<close>.\<close>

definition from_be_bytes :: "u8 \<Rightarrow> u8 \<Rightarrow> u16" where
  "from_be_bytes hi lo = of_nat (unat hi * 256 + unat lo)"

definition to_be_bytes :: "u16 \<Rightarrow> u8 list" where
  "to_be_bytes w = [of_nat (unat w div 256), of_nat (unat w mod 256)]"

definition checked_add :: "'a::len word \<Rightarrow> 'a word \<Rightarrow> 'a word option" where
  "checked_add a b = (if unat a + unat b < 2 ^ LENGTH('a) then Some (a + b) else None)"

definition u16_try_from :: "usize \<Rightarrow> u16 option" where
  "u16_try_from n = (if unat n < 2 ^ 16 then Some (of_nat (unat n)) else None)"

lemma u8_bound: "unat (b :: u8) < 256"
  using unsigned_less [of b, where ?'a = nat] by simp

lemma u16_bound: "unat (w :: u16) < 65536"
  using unsigned_less [of w, where ?'a = nat] by simp

lemma unat_of_nat_len: "n < 2 ^ LENGTH('a) \<Longrightarrow> unat (of_nat n :: 'a::len word) = n"
  by (simp add: unat_of_nat)

lemma unat_from_be_bytes: "unat (from_be_bytes hi lo) = unat hi * 256 + unat lo"
proof -
  have "unat hi * 256 + unat lo < 2 ^ LENGTH(16)"
    using u8_bound [of hi] u8_bound [of lo] by simp
  then show ?thesis
    by (simp only: from_be_bytes_def unat_of_nat_len)
qed

lemma to_be_bytes_hi_lo: "to_be_bytes (from_be_bytes hi lo) = [hi, lo]"
  using u8_bound [of lo] by (simp add: to_be_bytes_def unat_from_be_bytes)

lemma from_be_bytes_to_be_bytes:
  "to_be_bytes w = [hi, lo] \<Longrightarrow> from_be_bytes hi lo = w"
proof -
  assume "to_be_bytes w = [hi, lo]"
  then have hi: "hi = of_nat (unat w div 256)" and lo: "lo = of_nat (unat w mod 256)"
    by (simp_all add: to_be_bytes_def)
  have "unat w div 256 < 2 ^ LENGTH(8)"
    using u16_bound [of w] by simp
  then have "unat hi = unat w div 256"
    by (simp only: hi unat_of_nat_len)
  moreover have "unat w mod 256 < 2 ^ LENGTH(8)"
    by simp
  then have "unat lo = unat w mod 256"
    by (simp only: lo unat_of_nat_len)
  ultimately have "unat (from_be_bytes hi lo) = unat w"
    by (simp add: unat_from_be_bytes)
  then show ?thesis by (simp add: word_unat_eq_iff)
qed

lemma length_to_be_bytes [simp]: "length (to_be_bytes w) = 2"
  by (simp add: to_be_bytes_def)

lemma to_be_bytes_inject: "to_be_bytes v = to_be_bytes w \<Longrightarrow> v = w"
  using from_be_bytes_to_be_bytes [of v] from_be_bytes_to_be_bytes [of w]
  by (metis to_be_bytes_def)

lemma unat_ucast_u16_usize [simp]: "unat (ucast (w :: u16) :: usize) = unat w"
proof -
  have "take_bit LENGTH(64) (unat w) = unat w"
    using u16_bound [of w] by (simp add: take_bit_nat_eq_self_iff)
  then show ?thesis
    by (simp add: unsigned_ucast_eq)
qed

lemma checked_add_Some:
  "checked_add a b = Some c \<longleftrightarrow> unat a + unat b < 2 ^ LENGTH('a) \<and> c = a + b"
  for a b c :: "'a::len word"
  by (auto simp: checked_add_def)

lemma checked_add_unat: "checked_add a b = Some c \<Longrightarrow> unat c = unat a + unat b"
  by (auto simp: checked_add_Some unat_word_ariths)

section \<open>Results and panics\<close>

type_synonym err = string
type_synonym 'a result = "err + 'a"

datatype 'a exec = Panic | Ret 'a

fun exec_bind :: "'a exec \<Rightarrow> ('a \<Rightarrow> 'b exec) \<Rightarrow> 'b exec" where
  "exec_bind Panic f = Panic"
| "exec_bind (Ret x) f = f x"

lemma exec_bind_Ret_iff: "exec_bind m f = Ret y \<longleftrightarrow> (\<exists>x. m = Ret x \<and> f x = Ret y)"
  by (cases m) auto

lemma exec_bind_Panic_iff: "exec_bind m f = Panic \<longleftrightarrow> m = Panic \<or> (\<exists>x. m = Ret x \<and> f x = Panic)"
  by (cases m) simp_all

text \<open>The value of an asynchronous computation that may still be waiting.\<close>

datatype 'a poll = Pending | Ready 'a

section \<open>Slices\<close>

text \<open>
  Indexing \<open>xs[i]\<close> and \<open>xs[a..b]\<close> panics out of range; the \<open>get\<close> forms return an option.
\<close>

definition slice_index :: "'a list \<Rightarrow> nat \<Rightarrow> 'a exec" where
  "slice_index xs i = (if i < length xs then Ret (xs ! i) else Panic)"

definition slice_range :: "'a list \<Rightarrow> nat \<Rightarrow> nat \<Rightarrow> 'a list exec" where
  "slice_range xs a b = (if a \<le> b \<and> b \<le> length xs then Ret (take (b - a) (drop a xs)) else Panic)"

definition slice_from :: "'a list \<Rightarrow> nat \<Rightarrow> 'a list exec" where
  "slice_from xs a = (if a \<le> length xs then Ret (drop a xs) else Panic)"

definition get_range :: "'a list \<Rightarrow> nat \<Rightarrow> nat \<Rightarrow> 'a list option" where
  "get_range xs a b = (if a \<le> b \<and> b \<le> length xs then Some (take (b - a) (drop a xs)) else None)"

definition get_from :: "'a list \<Rightarrow> nat \<Rightarrow> 'a list option" where
  "get_from xs a = (if a \<le> length xs then Some (drop a xs) else None)"

declare slice_index_def [rust_std] slice_range_def [rust_std] slice_from_def [rust_std]
  get_range_def [rust_std] get_from_def [rust_std]

text \<open>\<open>slice::split\<close>: always at least one piece, the separators left out.\<close>

fun slice_split :: "('a \<Rightarrow> bool) \<Rightarrow> 'a list \<Rightarrow> 'a list list" where
  "slice_split P [] = [[]]"
| "slice_split P (x # xs) =
     (if P x then [] # slice_split P xs
      else (case slice_split P xs of [] \<Rightarrow> [[x]] | y # ys \<Rightarrow> (x # y) # ys))"

definition iter_next :: "'a list \<Rightarrow> 'a option" where
  "iter_next xs = (case xs of [] \<Rightarrow> None | x # _ \<Rightarrow> Some x)"

lemma slice_split_takeWhile:
  "iter_next (slice_split P xs) = Some (takeWhile (\<lambda>x. \<not> P x) xs)"
  by (induction xs) (auto simp: iter_next_def split: list.splits)

section \<open>UTF-8\<close>

text \<open>
  \<open>str::from_utf8\<close> accepts exactly the well-formed byte sequences of the Unicode standard
  (table 3-7): no overlong form, no surrogate, nothing above U+10FFFF.
\<close>

definition in_range :: "nat \<Rightarrow> nat \<Rightarrow> u8 \<Rightarrow> bool" where
  "in_range lo hi b \<longleftrightarrow> lo \<le> unat b \<and> unat b \<le> hi"

abbreviation utf8_cont :: "u8 \<Rightarrow> bool" where
  "utf8_cont \<equiv> in_range 0x80 0xBF"

fun utf8_valid :: "u8 list \<Rightarrow> bool" where
  "utf8_valid [] = True"
| "utf8_valid (a # xs) =
     (if unat a < 0x80 then utf8_valid xs
      else (case xs of
        [] \<Rightarrow> False
      | b # ys \<Rightarrow>
          (if in_range 0xC2 0xDF a then utf8_cont b \<and> utf8_valid ys
           else (case ys of
             [] \<Rightarrow> False
           | c # zs \<Rightarrow>
               (if in_range 0xE0 0xEF a then
                  in_range (if unat a = 0xE0 then 0xA0 else 0x80)
                    (if unat a = 0xED then 0x9F else 0xBF) b \<and>
                  utf8_cont c \<and> utf8_valid zs
                else (case zs of
                  [] \<Rightarrow> False
                | d # rest \<Rightarrow>
                    in_range 0xF0 0xF4 a \<and>
                    in_range (if unat a = 0xF0 then 0x90 else 0x80)
                      (if unat a = 0xF4 then 0x8F else 0xBF) b \<and>
                    utf8_cont c \<and> utf8_cont d \<and> utf8_valid rest))))))"

definition as_bytes :: "string \<Rightarrow> u8 list" where
  "as_bytes = map (\<lambda>c. of_nat (of_char c))"

definition bytes_str :: "u8 list \<Rightarrow> string" where
  "bytes_str = map (\<lambda>b. char_of (unat b))"

definition from_utf8 :: "u8 list \<Rightarrow> string option" where
  "from_utf8 bs = (if utf8_valid bs then Some (bytes_str bs) else None)"

lemma as_bytes_bytes_str [simp]: "as_bytes (bytes_str bs) = bs"
proof -
  have "of_nat (of_char (char_of (unat b) :: char)) = b" for b :: u8
    using u8_bound [of b] by simp
  then show ?thesis
    by (induction bs) (simp_all add: as_bytes_def bytes_str_def)
qed

lemma bytes_str_as_bytes [simp]: "bytes_str (as_bytes s) = s"
proof -
  have "char_of (unat (of_nat (of_char c) :: u8)) = c" for c :: char
  proof -
    have "(of_char c :: nat) < 2 ^ LENGTH(8)"
      using nat_of_char_less_256 [of c] by simp
    then have "unat (of_nat (of_char c) :: u8) = of_char c"
      by (simp only: unat_of_nat_len)
    then show ?thesis by simp
  qed
  then show ?thesis
    by (induction s) (simp_all add: as_bytes_def bytes_str_def)
qed

lemma length_as_bytes [simp]: "length (as_bytes s) = length s"
  by (simp add: as_bytes_def)

lemma bytes_str_eq_Nil [simp]: "bytes_str bs = [] \<longleftrightarrow> bs = []"
  by (simp add: bytes_str_def)

lemma as_bytes_inject [simp]: "as_bytes s = as_bytes t \<longleftrightarrow> s = t"
  by (metis bytes_str_as_bytes)

section \<open>Parsing unsigned integers\<close>

text \<open>
  \<open>str::parse::<uN>\<close>: an optional plus sign, then at least one decimal digit, each step
  checked for overflow of \<open>2 ^ N\<close>, errors reported in the order the standard library meets
  them.
\<close>

datatype ParseIntError = Empty | InvalidDigit | PosOverflow

definition parse_error_display :: "ParseIntError \<Rightarrow> err" where
  "parse_error_display e =
     (case e of
        Empty \<Rightarrow> ''cannot parse integer from empty string''
      | InvalidDigit \<Rightarrow> ''invalid digit found in string''
      | PosOverflow \<Rightarrow> ''number too large to fit in target type'')"

definition to_digit :: "char \<Rightarrow> nat option" where
  "to_digit c = (let n = of_char c in if 48 \<le> n \<and> n \<le> 57 then Some (n - 48) else None)"

fun parse_digits :: "nat \<Rightarrow> nat \<Rightarrow> string \<Rightarrow> ParseIntError + nat" where
  "parse_digits w acc [] = Inr acc"
| "parse_digits w acc (c # cs) =
     (case to_digit c of
        None \<Rightarrow> Inl InvalidDigit
      | Some d \<Rightarrow>
          if 2 ^ w \<le> acc * 10 then Inl PosOverflow
          else if 2 ^ w \<le> acc * 10 + d then Inl PosOverflow
          else parse_digits w (acc * 10 + d) cs)"

definition parse_uint :: "nat \<Rightarrow> string \<Rightarrow> ParseIntError + nat" where
  "parse_uint w s =
     (case s of
        [] \<Rightarrow> Inl Empty
      | c # cs \<Rightarrow>
          if c = CHR ''+'' then (if cs = [] then Inl InvalidDigit else parse_digits w 0 cs)
          else parse_digits w 0 s)"

definition parse_word :: "string \<Rightarrow> ParseIntError + 'a::len word" where
  "parse_word s = map_sum id of_nat (parse_uint (LENGTH('a)) s)"

lemma parse_digits_bound: "parse_digits w acc s = Inr n \<Longrightarrow> acc < 2 ^ w \<Longrightarrow> n < 2 ^ w"
  by (induction w acc s rule: parse_digits.induct) (auto split: option.splits if_splits)

lemma parse_uint_bound: "parse_uint w s = Inr n \<Longrightarrow> n < 2 ^ w"
  using parse_digits_bound [of w 0]
  by (auto simp: parse_uint_def simp del: parse_digits.simps split: list.splits if_splits)

text \<open>\<open>to_string\<close> of an unsigned integer, and its round trip with \<open>parse\<close>.\<close>

definition digit_char :: "nat \<Rightarrow> char" where
  "digit_char d = char_of (48 + d)"

fun dec_string :: "nat \<Rightarrow> string" where
  "dec_string n = (if n < 10 then [digit_char n] else dec_string (n div 10) @ [digit_char (n mod 10)])"

declare dec_string.simps [simp del]

lemma to_digit_digit_char: "d < 10 \<Longrightarrow> to_digit (digit_char d) = Some d"
  by (simp add: to_digit_def digit_char_def)

lemma parse_digits_append:
  "parse_digits w acc (s @ t) =
     (case parse_digits w acc s of Inl e \<Rightarrow> Inl e | Inr n \<Rightarrow> parse_digits w n t)"
  by (induction w acc s rule: parse_digits.induct) (auto split: option.splits)

lemma parse_digits_dec_string: "n < 2 ^ w \<Longrightarrow> parse_digits w 0 (dec_string n) = Inr n"
proof (induction n rule: dec_string.induct)
  case (1 n)
  show ?case
  proof (cases "n < 10")
    case True
    with "1.prems" show ?thesis
      by (simp add: dec_string.simps [of n] to_digit_digit_char)
  next
    case False
    then have "n div 10 < 2 ^ w" "\<not> 2 ^ w \<le> n div 10 * 10"
      using "1.prems" by linarith+
    moreover have "n div 10 * 10 + n mod 10 = n" by simp
    ultimately show ?thesis
      using False "1.IH" "1.prems"
      by (simp add: dec_string.simps [of n] parse_digits_append to_digit_digit_char)
  qed
qed

lemma dec_string_neq_Nil [simp]: "dec_string n \<noteq> []"
  by (subst dec_string.simps) simp

lemma digit_char_no_plus: "d < 10 \<Longrightarrow> digit_char d \<noteq> CHR ''+''"
  using to_digit_digit_char [of d] by (auto simp: to_digit_def)

lemma dec_string_no_plus: "CHR ''+'' \<notin> set (dec_string n)"
proof (induction n rule: dec_string.induct)
  case (1 n)
  then show ?case
    using digit_char_no_plus [of n] digit_char_no_plus [of "n mod 10"]
    by (cases "n < 10") (auto simp: dec_string.simps [of n])
qed

lemma parse_uint_dec_string: "n < 2 ^ w \<Longrightarrow> parse_uint w (dec_string n) = Inr n"
  using parse_digits_dec_string [of n w] dec_string_no_plus [of n]
  by (cases "dec_string n") (auto simp: parse_uint_def simp del: parse_digits.simps)

lemma parse_word_dec_string: "parse_word (dec_string (unat w)) = Inr w" for w :: "'a::len word"
proof -
  have "unat w < 2 ^ LENGTH('a)" by simp
  then show ?thesis
    unfolding parse_word_def by (simp add: parse_uint_dec_string)
qed

section \<open>Hash maps\<close>

text \<open>
  \<open>retain\<close>, \<open>values().any(\<dots> == v)\<close> and \<open>len\<close>; \<open>get\<close>, \<open>insert\<close> and \<open>remove\<close> are the
  library's \<open>fmlookup\<close>, \<open>fmupd\<close> and \<open>fmdrop\<close>.
\<close>

definition hm_retain :: "('k \<Rightarrow> 'v \<Rightarrow> bool) \<Rightarrow> ('k, 'v) fmap \<Rightarrow> ('k, 'v) fmap" where
  "hm_retain P m = fmfilter (\<lambda>k. case fmlookup m k of None \<Rightarrow> False | Some v \<Rightarrow> P k v) m"

definition hm_any_value :: "('k, 'v) fmap \<Rightarrow> 'v \<Rightarrow> bool" where
  "hm_any_value m v \<longleftrightarrow> v |\<in>| fmran m"

definition hm_len :: "('k, 'v) fmap \<Rightarrow> nat" where
  "hm_len m = fcard (fmdom m)"

lemma fmlookup_hm_retain [simp]:
  "fmlookup (hm_retain P m) k =
     (case fmlookup m k of None \<Rightarrow> None | Some v \<Rightarrow> if P k v then Some v else None)"
  by (auto simp: hm_retain_def split: option.splits)

lemma hm_retain_empty [simp]: "hm_retain P fmempty = fmempty"
  by (rule fmap_ext) simp

lemma hm_retain_upd [hash_map]:
  "hm_retain P (fmupd k v m) =
     (if P k v then fmupd k v (hm_retain P m) else hm_retain P (fmdrop k m))"
  by (rule fmap_ext) (auto split: option.splits)

lemma hm_any_value_iff: "hm_any_value m v \<longleftrightarrow> (\<exists>k. fmlookup m k = Some v)"
  by (auto simp: hm_any_value_def fmlookup_ran_iff)

lemma hm_any_value_empty [simp]: "\<not> hm_any_value fmempty v"
  by (simp add: hm_any_value_def)

lemma hm_any_value_upd [hash_map]:
  "hm_any_value (fmupd k v m) u \<longleftrightarrow> u = v \<or> hm_any_value (fmdrop k m) u"
  by (auto simp: hm_any_value_iff)

lemma hm_len_eq_0 [simp]: "hm_len m = 0 \<longleftrightarrow> m = fmempty"
proof
  assume "hm_len m = 0"
  then have "fmdom m = {||}"
    by (simp add: hm_len_def)
  then show "m = fmempty"
    by (intro fmap_ext) (simp add: fmdom_notD)
qed (simp add: hm_len_def)

lemma fmran_fmupd [hash_map]: "fmran (fmupd k v m) = finsert v (fmran (fmdrop k m))"
  by (rule fset_eqI) (simp add: fmlookup_ran_iff del: fmran_drop, metis)

lemma fmdrop_absent: "fmlookup m k = None \<Longrightarrow> fmdrop k m = m"
  by (rule fmap_ext) auto

lemma fmdrop_fmupd_if [hash_map]:
  "fmdrop j (fmupd k v m) = (if j = k then fmdrop j m else fmupd k v (fmdrop j m))"
  by (rule fmap_ext) auto

end
