(* ===== verification/Stun.thy ===== *)
theory Stun
  imports Prelude
begin

text \<open>
  The STUN reader of the pooled UDP sockets, \<^verbatim>\<open>src/proxy/stun.rs\<close>: constants, the attribute walk
  and \<open>local_ufrag\<close>, with every slice access able to panic as in Rust, and the test module's
  \<open>binding_request\<close> builder.  The abstract side is the wire format of a binding request
  (\<open>stun_message\<close>, \<open>enc_attr\<close>); the main results are that no datagram makes the reader panic, an
  exact characterisation of the datagrams it accepts and of the ufrag it returns, and the round
  trip with the builder.
\<close>

section \<open>The reader\<close>

definition HEADER_LEN :: usize where "HEADER_LEN = 20"
definition ATTR_HEADER_LEN :: usize where "ATTR_HEADER_LEN = 4"
definition BINDING_REQUEST :: u16 where "BINDING_REQUEST = 0x0001"
definition ATTR_USERNAME :: u16 where "ATTR_USERNAME = 0x0006"
definition MAGIC_COOKIE :: "u8 list" where "MAGIC_COOKIE = [0x21, 0x12, 0xA4, 0x42]"

text \<open>\<open>u16::from_be_bytes([xs[i], xs[i + 1]])\<close>\<close>

definition be_u16_at :: "u8 list \<Rightarrow> nat \<Rightarrow> u16 exec" where
  "be_u16_at xs i =
     exec_bind (slice_index xs i) (\<lambda>a.
     exec_bind (slice_index xs (i + 1)) (\<lambda>b.
     Ret (from_be_bytes a b)))"

text \<open>\<open>(attr_len + 3) & !3\<close>\<close>

definition padded_len :: "usize \<Rightarrow> usize" where
  "padded_len n = (n + 3) AND NOT 3"

text \<open>The USERNAME branch: the part before the colon, if it is non-empty UTF-8.\<close>

definition username_ufrag :: "u8 list \<Rightarrow> string option" where
  "username_ufrag value =
     (case iter_next (slice_split (\<lambda>b. b = 0x3A) value) of
        None \<Rightarrow> None
      | Some ufrag \<Rightarrow>
          (case from_utf8 ufrag of
             Some u \<Rightarrow> if u \<noteq> [] then Some u else None
           | None \<Rightarrow> None))"

lemma and_not_3: "x AND NOT 3 = push_bit 2 (drop_bit 2 x)" for x :: usize
proof (rule bit_eqI)
  fix n
  assume "possible_bit TYPE(usize) n"
  have Suc_Suc_diff: "2 \<le> n \<Longrightarrow> Suc (Suc (n - 2)) = n"
    by simp
  have "x AND NOT 3 = x AND NOT (mask 2)"
    by (simp add: mask_eq_exp_minus_1)
  moreover have "bit (x AND NOT (mask 2)) n = bit (push_bit 2 (drop_bit 2 x)) n"
    using \<open>possible_bit TYPE(usize) n\<close>
    using Suc_Suc_diff by (auto simp: bit_simps)
  ultimately show "bit (x AND NOT 3) n = bit (push_bit 2 (drop_bit 2 x)) n"
    by (simp only:)
qed

lemma unat_padded_len:
  assumes "unat n < 2 ^ 63"
  shows "unat (padded_len n) = 4 * ((unat n + 3) div 4)"
proof -
  let ?x = "n + 3"
  have x: "unat ?x = unat n + 3"
    using assms by (simp add: unat_word_ariths)
  have d: "unat (drop_bit 2 ?x) = unat ?x div 4"
    using unat_drop_bit_eq [of 2 ?x] by (simp add: drop_bit_eq_div unat_div_distrib)
  have "unat (push_bit 2 (drop_bit 2 ?x)) = 4 * unat (drop_bit 2 ?x)"
    using assms x d by (simp add: push_bit_eq_mult unat_word_ariths)
  with x d show ?thesis
    unfolding padded_len_def and_not_3 by simp
qed

lemma unat_padded_len_u16:
  "unat (padded_len (ucast (w :: u16))) = 4 * ((unat w + 3) div 4)"
  using unat_padded_len [of "ucast w"] u16_bound [of w] by simp

lemma unat_attr_end:
  "unat (ATTR_HEADER_LEN + ucast (w :: u16)) = 4 + unat w"
  using u16_bound [of w] by (simp add: ATTR_HEADER_LEN_def unat_word_ariths)

lemma unat_attr_next:
  "unat (ATTR_HEADER_LEN + padded_len (ucast (w :: u16))) = 4 + 4 * ((unat w + 3) div 4)"
  using u16_bound [of w] unat_padded_len_u16 [of w]
  by (simp add: ATTR_HEADER_LEN_def unat_word_ariths)

lemma unat_msg_end:
  "unat (HEADER_LEN + ucast (w :: u16)) = 20 + unat w"
  using u16_bound [of w] by (simp add: HEADER_LEN_def unat_word_ariths)

lemmas stun_lengths = unat_attr_end unat_attr_next unat_msg_end

lemma unat_stun_consts [simp]: "unat HEADER_LEN = 20" "unat ATTR_HEADER_LEN = 4"
  by (simp_all add: HEADER_LEN_def ATTR_HEADER_LEN_def)

text \<open>The \<open>while attrs.len() >= ATTR_HEADER_LEN\<close> loop.\<close>

function walk_attrs :: "u8 list \<Rightarrow> string option exec" where
  "walk_attrs attrs =
     (if length attrs < unat ATTR_HEADER_LEN then Ret None
      else (case be_u16_at attrs 0 of
        Panic \<Rightarrow> Panic
      | Ret attr_type \<Rightarrow>
         (case be_u16_at attrs 2 of
            Panic \<Rightarrow> Panic
          | Ret len16 \<Rightarrow>
             (let attr_len = ucast len16 :: usize in
              case get_range attrs (unat ATTR_HEADER_LEN) (unat (ATTR_HEADER_LEN + attr_len)) of
                None \<Rightarrow> Ret None
              | Some value \<Rightarrow>
                 (if attr_type = ATTR_USERNAME then Ret (username_ufrag value)
                  else (case get_from attrs (unat (ATTR_HEADER_LEN + padded_len attr_len)) of
                     None \<Rightarrow> Ret None
                   | Some rest \<Rightarrow> walk_attrs rest))))))"
  by pat_completeness auto
termination
proof (relation "measure length", goal_cases)
  case (2 attrs attr_type len16 attr_len val rest)
  then have "rest = drop (4 + 4 * ((unat len16 + 3) div 4)) attrs"
    by (auto simp: get_from_def unat_attr_next split: if_splits)
  moreover from 2 have "4 \<le> length attrs"
    by simp
  ultimately show ?case by simp
qed simp

declare walk_attrs.simps [simp del]

definition local_ufrag :: "u8 list \<Rightarrow> string option exec" where
  "local_ufrag packet =
     (if length packet < unat HEADER_LEN then Ret None
      else exec_bind (slice_range packet 4 8) (\<lambda>cookie.
        if cookie \<noteq> MAGIC_COOKIE then Ret None
        else exec_bind (be_u16_at packet 0) (\<lambda>msg_type.
          if msg_type \<noteq> BINDING_REQUEST then Ret None
          else exec_bind (be_u16_at packet 2) (\<lambda>len16.
            (let msg_len = ucast len16 :: usize in
             if msg_len AND 3 \<noteq> 0 \<or> unat (HEADER_LEN + msg_len) \<noteq> length packet then Ret None
             else exec_bind (slice_from packet (unat HEADER_LEN)) walk_attrs)))))"

text \<open>The test module's builder of a binding request whose only attribute is a USERNAME.\<close>

definition vec_resize :: "nat \<Rightarrow> 'a \<Rightarrow> 'a list \<Rightarrow> 'a list" where
  "vec_resize n x xs = (if n \<le> length xs then take n xs else xs @ replicate (n - length xs) x)"

definition binding_request :: "string \<Rightarrow> u8 list" where
  "binding_request user =
     (let username = as_bytes user;
          attrs_len = 4 + padded_len (of_nat (length username));
          packet = to_be_bytes 0x0001
            @ to_be_bytes (ucast attrs_len)
            @ [0x21, 0x12, 0xA4, 0x42]
            @ replicate 12 7
            @ to_be_bytes 0x0006
            @ to_be_bytes (ucast (of_nat (length username) :: usize))
            @ username
      in vec_resize (unat (20 + attrs_len)) 0 packet)"

section \<open>The wire format\<close>

text \<open>
  An attribute is its type, its value and the bytes that pad the value to a multiple of four.
\<close>

type_synonym attr = "u16 \<times> u8 list \<times> u8 list"

fun enc_attr :: "attr \<Rightarrow> u8 list" where
  "enc_attr (t, v, pad) = to_be_bytes t @ to_be_bytes (of_nat (length v)) @ v @ pad"

fun attr_ok :: "attr \<Rightarrow> bool" where
  "attr_ok (t, v, pad) \<longleftrightarrow>
     length v < 65536 \<and> length v + length pad = 4 * ((length v + 3) div 4)"

definition skippable :: "attr \<Rightarrow> bool" where
  "skippable a \<longleftrightarrow> attr_ok a \<and> fst a \<noteq> ATTR_USERNAME"

definition stun_body :: "attr list \<Rightarrow> u8 list \<Rightarrow> u8 list \<Rightarrow> u8 list" where
  "stun_body pre user rest =
     concat (map enc_attr pre) @ enc_attr (ATTR_USERNAME, user, rest)"

definition stun_message :: "u8 list \<Rightarrow> u8 list \<Rightarrow> u8 list" where
  "stun_message txid body =
     to_be_bytes BINDING_REQUEST @ to_be_bytes (of_nat (length body)) @ MAGIC_COOKIE @ txid @ body"

section \<open>Reading two bytes\<close>

lemma be_u16_at_Ret: "i + 1 < length xs \<Longrightarrow> be_u16_at xs i = Ret (from_be_bytes (xs ! i) (xs ! (i + 1)))"
  by (simp add: be_u16_at_def slice_index_def)

lemma be_u16_at_append:
  assumes "length xs = i"
  shows "be_u16_at (xs @ to_be_bytes w @ ys) i = Ret w"
proof -
  obtain hi lo where hl: "to_be_bytes w = [hi, lo]"
    by (simp add: to_be_bytes_def)
  with assms have "be_u16_at (xs @ to_be_bytes w @ ys) i = Ret (from_be_bytes hi lo)"
    by (simp add: be_u16_at_Ret nth_append)
  with hl show ?thesis
    by (simp add: from_be_bytes_to_be_bytes)
qed

lemma be_u16_at_0: "be_u16_at (to_be_bytes w @ ys) 0 = Ret w"
  using be_u16_at_append [of "[]" 0 w ys] by simp

lemma be_u16_at_2: "be_u16_at (to_be_bytes v @ to_be_bytes w @ ys) 2 = Ret w"
  using be_u16_at_append [of "to_be_bytes v" 2 w ys] by simp

text \<open>Any four bytes are two big-endian numbers.\<close>

lemma split_header:
  assumes "4 \<le> length xs"
  obtains t l ys where "xs = to_be_bytes t @ to_be_bytes l @ ys"
proof -
  from assms obtain a b c d ys where xs: "xs = a # b # c # d # ys"
    by (auto simp: numeral_eq_Suc Suc_le_length_iff)
  then have "xs = to_be_bytes (from_be_bytes a b) @ to_be_bytes (from_be_bytes c d) @ ys"
    by (simp add: to_be_bytes_hi_lo)
  then show thesis by (rule that)
qed

lemma msg_len_and_3: "(ucast (w :: u16) :: usize) AND 3 = 0 \<longleftrightarrow> 4 dvd unat w"
proof -
  have "(ucast w :: usize) AND 3 = take_bit 2 (ucast w)"
    by (simp add: take_bit_eq_mask mask_eq_exp_minus_1)
  then have "unat ((ucast w :: usize) AND 3) = unat w mod 4"
    by (simp add: take_bit_eq_mod unat_mod_distrib)
  then show ?thesis
    by (simp add: word_unat_eq_iff dvd_eq_mod_eq_0)
qed

section \<open>The attribute walk\<close>

lemma walk_short: "length attrs < 4 \<Longrightarrow> walk_attrs attrs = Ret None"
  by (subst walk_attrs.simps) simp

text \<open>One turn of the loop, on an attribute section that holds a whole attribute header.\<close>

lemma walk_step:
  "walk_attrs (to_be_bytes t @ to_be_bytes l @ ys) =
     (if length ys < unat l then Ret None
      else if t = ATTR_USERNAME then Ret (username_ufrag (take (unat l) ys))
      else if length ys < 4 * ((unat l + 3) div 4) then Ret None
      else walk_attrs (drop (4 * ((unat l + 3) div 4)) ys))"
proof -
  have "get_range (to_be_bytes t @ to_be_bytes l @ ys) 4 (4 + unat l) =
      (if length ys < unat l then None else Some (take (unat l) ys))"
    by (auto simp: get_range_def)
  moreover have "get_from (to_be_bytes t @ to_be_bytes l @ ys) (4 + 4 * ((unat l + 3) div 4)) =
      (if length ys < 4 * ((unat l + 3) div 4) then None
       else Some (drop (4 * ((unat l + 3) div 4)) ys))"
    by (auto simp: get_from_def)
  ultimately show ?thesis
    by (subst walk_attrs.simps) (simp add: be_u16_at_0 be_u16_at_2 stun_lengths)
qed

lemma unat_u16_of_nat: "n < 65536 \<Longrightarrow> unat (of_nat n :: u16) = n"
  by (simp add: unat_of_nat)

lemma walk_skip:
  assumes "skippable a"
  shows "walk_attrs (enc_attr a @ ys) = walk_attrs ys"
proof (cases a)
  case (fields t v pad)
  with assms have len: "length v < 65536" "length v + length pad = 4 * ((length v + 3) div 4)"
    and t: "t \<noteq> ATTR_USERNAME"
    by (simp_all add: skippable_def)
  then show ?thesis
    unfolding fields enc_attr.simps append_assoc
    by (subst walk_step) (simp add: unat_u16_of_nat flip: len(2))
qed

lemma walk_skip_all:
  "list_all skippable pre \<Longrightarrow> walk_attrs (concat (map enc_attr pre) @ ys) = walk_attrs ys"
  by (induction pre) (simp_all add: walk_skip)

lemma walk_username:
  "length v < 65536 \<Longrightarrow> walk_attrs (enc_attr (ATTR_USERNAME, v, rest)) = Ret (username_ufrag v)"
  unfolding enc_attr.simps by (subst walk_step) (simp add: unat_u16_of_nat)

lemma walk_stun_body:
  "list_all skippable pre \<Longrightarrow> length v < 65536 \<Longrightarrow>
     walk_attrs (stun_body pre v rest) = Ret (username_ufrag v)"
  by (simp add: stun_body_def walk_skip_all walk_username del: enc_attr.simps)

lemma walk_total: "\<exists>r. walk_attrs attrs = Ret r"
proof (induction attrs rule: length_induct)
  case (1 attrs)
  show ?case
  proof (cases "length attrs < 4")
    case False
    then obtain t l ys where attrs: "attrs = to_be_bytes t @ to_be_bytes l @ ys"
      by (meson not_less split_header)
    have "length (drop n ys) < length attrs" for n
      by (simp add: attrs)
    then have "\<exists>r. walk_attrs (drop n ys) = Ret r" for n
      using "1.IH" by blast
    then show ?thesis
      unfolding attrs by (subst walk_step) auto
  qed (simp add: walk_short)
qed

text \<open>An attribute header with enough bytes behind it starts a whole padded attribute.\<close>

lemma split_attr:
  fixes l :: u16 and ys :: "u8 list"
  defines "n \<equiv> 4 * ((unat l + 3) div 4)"
  assumes n: "n \<le> length ys"
  shows "\<exists>a. to_be_bytes t @ to_be_bytes l @ ys = enc_attr a @ drop n ys \<and> attr_ok a \<and> fst a = t"
proof -
  let ?a = "(t, take (unat l) ys, drop (unat l) (take n ys))"
  have le: "unat l \<le> n"
    by (simp add: n_def)
  then have len: "length (take (unat l) ys) = unat l"
    using n by simp
  have "take (unat l) ys @ drop (unat l) (take n ys) @ drop n ys = ys"
    using le by (metis append_assoc append_take_drop_id min_absorb1 take_take)
  then have "to_be_bytes t @ to_be_bytes l @ ys = enc_attr ?a @ drop n ys"
    unfolding enc_attr.simps len by simp
  moreover have "attr_ok ?a"
    unfolding attr_ok.simps len using n le u16_bound [of l] by (simp add: n_def)
  moreover have "fst ?a = t" by simp
  ultimately show ?thesis by blast
qed

lemma walk_found_username:
  assumes "attrs = to_be_bytes ATTR_USERNAME @ to_be_bytes l @ ys" "walk_attrs attrs = Ret (Some u)"
  shows "\<exists>v rest. attrs = stun_body [] v rest \<and> length v < 65536 \<and> username_ufrag v = Some u"
proof -
  have fits: "unat l \<le> length ys" and found: "username_ufrag (take (unat l) ys) = Some u"
    using assms(2) unfolding assms(1) walk_step by (auto split: if_splits)
  from fits have l: "of_nat (length (take (unat l) ys)) = l"
    by simp
  have "attrs = stun_body [] (take (unat l) ys) (drop (unat l) ys)"
    unfolding stun_body_def enc_attr.simps l by (simp add: assms(1))
  moreover have "length (take (unat l) ys) < 65536"
    using u16_bound [of l] by simp
  ultimately show ?thesis
    using found by blast
qed

text \<open>
  The converse of the two walking lemmas: an attribute section in which a ufrag is found is a
  sequence of skippable attributes followed by a USERNAME.
\<close>

lemma walk_found:
  assumes "walk_attrs attrs = Ret (Some u)"
  shows "\<exists>pre v rest. attrs = stun_body pre v rest \<and> list_all skippable pre \<and>
    length v < 65536 \<and> username_ufrag v = Some u"
  using assms
proof (induction attrs rule: length_induct)
  case (1 attrs)
  then have "4 \<le> length attrs"
    using walk_short by (metis exec.inject not_less option.distinct(1))
  then obtain t l ys where attrs: "attrs = to_be_bytes t @ to_be_bytes l @ ys"
    by (rule split_header)
  show ?case
  proof (cases "t = ATTR_USERNAME")
    case True
    with walk_found_username [OF _ "1.prems"] show ?thesis
      unfolding attrs by (metis list.pred_inject(1))
  next
    case False
    let ?n = "4 * ((unat l + 3) div 4)"
    from False "1.prems" have n: "?n \<le> length ys" and found: "walk_attrs (drop ?n ys) = Ret (Some u)"
      unfolding attrs walk_step by (auto split: if_splits)
    have "length (drop ?n ys) < length attrs"
      by (simp add: attrs)
    with "1.IH" found obtain pre v rest where
      rest: "drop ?n ys = stun_body pre v rest" "list_all skippable pre" "length v < 65536"
        "username_ufrag v = Some u"
      by blast
    from split_attr [OF n, of t] obtain a where
      a: "attrs = enc_attr a @ drop ?n ys" "attr_ok a" "fst a = t"
      by (auto simp: attrs)
    then have "attrs = stun_body (a # pre) v rest"
      by (simp add: stun_body_def rest(1))
    moreover have "list_all skippable (a # pre)"
      using a False rest(2) by (simp add: skippable_def)
    ultimately show ?thesis
      using rest by blast
  qed
qed

section \<open>The ufrag of a USERNAME\<close>

abbreviation before_colon :: "u8 list \<Rightarrow> u8 list" where
  "before_colon \<equiv> takeWhile (\<lambda>b. b \<noteq> 0x3A)"

lemma username_ufrag_eq:
  "username_ufrag v =
     (if utf8_valid (before_colon v) \<and> before_colon v \<noteq> [] then Some (bytes_str (before_colon v)) else None)"
  by (simp add: username_ufrag_def slice_split_takeWhile from_utf8_def)

lemma username_ufrag_Some:
  "username_ufrag v = Some u \<longleftrightarrow>
     before_colon v = as_bytes u \<and> u \<noteq> [] \<and> utf8_valid (as_bytes u)"
proof
  assume "username_ufrag v = Some u"
  then have "u = bytes_str (before_colon v)" "utf8_valid (before_colon v)" "before_colon v \<noteq> []"
    unfolding username_ufrag_eq by (simp_all split: if_splits)
  then show "before_colon v = as_bytes u \<and> u \<noteq> [] \<and> utf8_valid (as_bytes u)"
    by simp
next
  assume u: "before_colon v = as_bytes u \<and> u \<noteq> [] \<and> utf8_valid (as_bytes u)"
  then have "as_bytes u \<noteq> []"
    using length_as_bytes [of u] by (metis length_0_conv)
  with u show "username_ufrag v = Some u"
    unfolding username_ufrag_eq by simp
qed

text \<open>Cutting well-formed UTF-8 at a colon keeps it well formed.\<close>

lemma in_range_colon: "in_range lo hi 0x3A \<longleftrightarrow> lo \<le> 58 \<and> 58 \<le> hi"
  by (simp add: in_range_def)

lemma utf8_valid_before_colon: "utf8_valid bs \<Longrightarrow> utf8_valid (before_colon bs)"
proof (induction bs rule: utf8_valid.induct)
  case (2 a xs)
  show ?case
  proof (cases "unat a < 0x80")
    case True
    with 2 show ?thesis by simp
  next
    case multi: False
    then have a: "a \<noteq> 0x3A" by auto
    from multi "2.prems" obtain b ys where xs: "xs = b # ys"
      by (auto split: list.splits)
    show ?thesis
    proof (cases "in_range 0xC2 0xDF a")
      case True
      with multi a "2.prems" "2.IH"(2) show ?thesis
        by (auto simp: xs in_range_colon)
    next
      case three: False
      with multi "2.prems" obtain c zs where ys: "ys = c # zs"
        by (auto simp: xs split: list.splits)
      show ?thesis
      proof (cases "in_range 0xE0 0xEF a")
        case True
        with multi three a "2.prems" "2.IH"(3) show ?thesis
          by (auto simp: xs ys in_range_colon split: if_splits)
      next
        case four: False
        with multi three "2.prems" obtain d rest where "zs = d # rest"
          by (auto simp: xs ys split: list.splits)
        with multi three four a "2.prems" "2.IH"(4) show ?thesis
          by (auto simp: xs ys in_range_colon split: if_splits)
      qed
    qed
  qed
qed simp

section \<open>The whole reader\<close>

text \<open>The reader on a datagram of header length or more, split into its fields.\<close>

lemma local_ufrag_header:
  assumes "length cookie = 4" "length txid = 12"
  shows "local_ufrag (to_be_bytes t @ to_be_bytes l @ cookie @ txid @ body) =
     (if cookie = MAGIC_COOKIE \<and> t = BINDING_REQUEST \<and> 4 dvd unat l \<and> unat l = length body
      then walk_attrs body else Ret None)"
proof -
  let ?p = "to_be_bytes t @ to_be_bytes l @ cookie @ txid @ body"
  have "slice_range ?p 4 8 = Ret cookie"
    using assms by (simp add: slice_range_def)
  moreover have "slice_from ?p 20 = Ret body"
    using assms by (simp add: slice_from_def)
  ultimately show ?thesis
    using assms
    by (auto simp: local_ufrag_def be_u16_at_0 be_u16_at_2 stun_lengths msg_len_and_3)
qed

lemma split_packet:
  assumes "20 \<le> length packet"
  obtains t l cookie txid body where
    "packet = to_be_bytes t @ to_be_bytes l @ cookie @ txid @ body"
    "length cookie = 4" "length txid = 12"
proof -
  have "4 \<le> length packet"
    using assms by simp
  then obtain t l ys where p: "packet = to_be_bytes t @ to_be_bytes l @ ys"
    by (rule split_header)
  have "ys = take 4 ys @ take 12 (drop 4 ys) @ drop 16 ys"
    using append_take_drop_id [of 12 "drop 4 ys"] by (simp add: append_assoc [symmetric] del: append_assoc)
  with p assms show thesis
    by (intro that [of t l "take 4 ys" "take 12 (drop 4 ys)" "drop 16 ys"]) simp_all
qed

lemma local_ufrag_short: "length packet < 20 \<Longrightarrow> local_ufrag packet = Ret None"
  by (simp add: local_ufrag_def)

lemma local_ufrag_total: "\<exists>r. local_ufrag packet = Ret r"
proof (cases "length packet < 20")
  case False
  then have "20 \<le> length packet" by simp
  then obtain t l cookie txid body where
    "packet = to_be_bytes t @ to_be_bytes l @ cookie @ txid @ body"
    "length cookie = 4" "length txid = 12"
    by (rule split_packet)
  then show ?thesis
    using walk_total [of body] by (simp add: local_ufrag_header)
qed (simp add: local_ufrag_short)

text \<open>Whatever bytes arrive, none of the reader's slice accesses is out of range.\<close>

lemma local_ufrag_no_panic: "local_ufrag packet \<noteq> Panic"
  using local_ufrag_total [of packet] by auto

section \<open>A reference reader\<close>

text \<open>
  The reader takes one pass over the bytes, with offsets in machine words, and stops at the first
  USERNAME.  The reference decodes first and searches then: \<open>tlvs\<close> lists the attributes of a
  section up to the first one that is cut off, and \<open>header_ok\<close> compares the header with the one a
  binding request of that length has.
\<close>

function (sequential) tlvs :: "u8 list \<Rightarrow> (u16 \<times> u8 list) list" where
  "tlvs (a # b # c # d # ys) =
     (let l = unat (from_be_bytes c d) in
      if length ys < l then []
      else (from_be_bytes a b, take l ys) # tlvs (drop (4 * ((l + 3) div 4)) ys))"
| "tlvs _ = []"
  by pat_completeness auto
termination
  by (relation "measure length") auto

definition header_ok :: "u8 list \<Rightarrow> bool" where
  "header_ok packet \<longleftrightarrow>
     20 \<le> length packet \<and> length packet - 20 < 65536 \<and> 4 dvd length packet - 20 \<and>
     take 8 packet = to_be_bytes BINDING_REQUEST @ to_be_bytes (of_nat (length packet - 20)) @ MAGIC_COOKIE"

definition ufrag_of :: "u8 list \<Rightarrow> string option" where
  "ufrag_of packet =
     (if header_ok packet
      then Option.bind (map_of (tlvs (drop 20 packet)) ATTR_USERNAME) username_ufrag
      else None)"

lemma tlvs_short: "length xs < 4 \<Longrightarrow> tlvs xs = []"
  by (cases xs rule: tlvs.cases) auto

lemma tlvs_step:
  "tlvs (to_be_bytes t @ to_be_bytes l @ ys) =
     (if length ys < unat l then []
      else (t, take (unat l) ys) # tlvs (drop (4 * ((unat l + 3) div 4)) ys))"
proof -
  obtain a b c d where "to_be_bytes t = [a, b]" "to_be_bytes l = [c, d]"
    by (simp add: to_be_bytes_def)
  then show ?thesis
    by (simp add: from_be_bytes_to_be_bytes Let_def)
qed

lemma walk_tlvs: "walk_attrs attrs = Ret (Option.bind (map_of (tlvs attrs) ATTR_USERNAME) username_ufrag)"
proof (induction attrs rule: length_induct)
  case (1 attrs)
  show ?case
  proof (cases "length attrs < 4")
    case False
    then obtain t l ys where attrs: "attrs = to_be_bytes t @ to_be_bytes l @ ys"
      by (meson not_less split_header)
    have "length (drop n ys) < length attrs" for n
      by (simp add: attrs)
    with "1.IH" have IH: "walk_attrs (drop n ys) =
        Ret (Option.bind (map_of (tlvs (drop n ys)) ATTR_USERNAME) username_ufrag)" for n
      by blast
    show ?thesis
      unfolding attrs walk_step tlvs_step by (auto simp: IH tlvs_short)
  qed (simp add: walk_short tlvs_short)
qed

lemma header_ok_fields:
  assumes "length cookie = 4" "length txid = 12"
  shows "header_ok (to_be_bytes t @ to_be_bytes l @ cookie @ txid @ body) \<longleftrightarrow>
    cookie = MAGIC_COOKIE \<and> t = BINDING_REQUEST \<and> 4 dvd unat l \<and> unat l = length body"
proof -
  have "length body < 65536 \<Longrightarrow> to_be_bytes l = to_be_bytes (of_nat (length body)) \<longleftrightarrow> unat l = length body"
    using unat_u16_of_nat [of "length body"] to_be_bytes_inject [of l "of_nat (length body)"]
      word_unat_eq_iff [of l "of_nat (length body)"] by metis
  then show ?thesis
    using assms u16_bound [of l] to_be_bytes_inject [of t BINDING_REQUEST]
    by (auto simp: header_ok_def)
qed

text \<open>
  C7. The reader agrees with the reference on every datagram, and returns: none of its slice
  accesses is out of range, whatever bytes arrive.
\<close>

theorem local_ufrag_reference: "local_ufrag packet = Ret (ufrag_of packet)"
proof (cases "length packet < 20")
  case False
  then have "20 \<le> length packet" by simp
  then obtain t l cookie txid body where
    p: "packet = to_be_bytes t @ to_be_bytes l @ cookie @ txid @ body"
    and len: "length cookie = 4" "length txid = 12"
    by (rule split_packet)
  then have body: "drop 20 packet = body" by simp
  show ?thesis
    unfolding ufrag_of_def body
    unfolding p local_ufrag_header [OF len] header_ok_fields [OF len] walk_tlvs by (simp only: if_distrib [of Ret])
qed (simp add: local_ufrag_short ufrag_of_def header_ok_def)

lemma local_ufrag_message:
  assumes "length txid = 12" and "length (stun_body pre user rest) < 65536"
    and "4 dvd length (stun_body pre user rest)" and "list_all skippable pre"
    and "username_ufrag user = Some u"
  shows "local_ufrag (stun_message txid (stun_body pre user rest)) = Ret (Some u)"
proof -
  from assms(2) have "length user < 65536"
    by (simp add: stun_body_def)
  with assms(4,5) have "walk_attrs (stun_body pre user rest) = Ret (Some u)"
    by (simp add: walk_stun_body)
  moreover have "length MAGIC_COOKIE = 4"
    by (simp add: MAGIC_COOKIE_def)
  ultimately show ?thesis
    using assms(1,2,3) by (simp add: stun_message_def local_ufrag_header unat_u16_of_nat)
qed

text \<open>
  C6. Exact behaviour of the reader: it returns ufrag \<open>u\<close> if and only if the datagram is a STUN
  binding request whose length field is a multiple of four and equals the body's length, whose
  body starts with a sequence of padded attributes other than USERNAME followed by a USERNAME, and
  \<open>u\<close> is that username up to its first colon, non-empty and well-formed UTF-8.  The bytes behind
  the USERNAME (\<open>rest\<close>) are not looked at: they need not be attributes.
\<close>

theorem local_ufrag_iff:
  "local_ufrag packet = Ret (Some u) \<longleftrightarrow>
     (\<exists>txid pre user rest.
        packet = stun_message txid (stun_body pre user rest) \<and>
        length txid = 12 \<and>
        length (stun_body pre user rest) < 65536 \<and> 4 dvd length (stun_body pre user rest) \<and>
        list_all skippable pre \<and>
        before_colon user = as_bytes u \<and> u \<noteq> [] \<and> utf8_valid (as_bytes u))"
    (is "?L \<longleftrightarrow> ?R")
proof
  assume found: ?L
  then have "20 \<le> length packet"
    using local_ufrag_short by (metis exec.inject not_less option.distinct(1))
  then obtain t l cookie txid body where p: "packet = to_be_bytes t @ to_be_bytes l @ cookie @ txid @ body"
    and len: "length cookie = 4" "length txid = 12"
    by (rule split_packet)
  from found have h: "cookie = MAGIC_COOKIE" "t = BINDING_REQUEST" "4 dvd unat l" "unat l = length body"
    and walk: "walk_attrs body = Ret (Some u)"
    unfolding p local_ufrag_header [OF len] by (auto split: if_splits)
  from walk_found [OF walk] obtain pre user rest where
    b: "body = stun_body pre user rest" "list_all skippable pre" "username_ufrag user = Some u"
    by blast
  have "l = of_nat (length body)"
    by (simp flip: h(4))
  with p h have "packet = stun_message txid body"
    by (simp add: stun_message_def)
  then show ?R
    using b h len u16_bound [of l] unfolding username_ufrag_Some by metis
next
  assume ?R
  then show ?L
    using local_ufrag_message unfolding username_ufrag_Some by blast
qed

text \<open>
  A datagram whose first byte is not zero (every RTP, RTCP, DTLS or TURN channel packet) is
  never taken for a binding request: it has no ufrag, so it cannot open a flow.
\<close>

lemma local_ufrag_rejects_media:
  assumes "packet = b # bs" and "b \<noteq> 0"
  shows "local_ufrag packet = Ret None"
proof (cases "length packet < 20")
  case False
  then have "20 \<le> length packet" by simp
  then obtain t l cookie txid body where
    p: "packet = to_be_bytes t @ to_be_bytes l @ cookie @ txid @ body"
    and len: "length cookie = 4" "length txid = 12"
    by (rule split_packet)
  from p assms(1) have "b = of_nat (unat t div 256)"
    by (simp add: to_be_bytes_def)
  with assms(2) have "t \<noteq> BINDING_REQUEST"
    by (auto simp: BINDING_REQUEST_def)
  then show ?thesis
    by (simp add: p local_ufrag_header [OF len])
qed (simp add: local_ufrag_short)

lemma local_ufrag_rejects_media_witness:
  "local_ufrag (0x80 # replicate 63 0) = Ret None"
  using local_ufrag_rejects_media [OF refl, of "0x80" "replicate 63 0"] by simp

section \<open>Round trip with the builder\<close>

lemma byte_is_colon: "(of_nat (of_char c) :: u8) = 0x3A \<longleftrightarrow> c = CHR '':''"
proof
  assume "(of_nat (of_char c) :: u8) = 0x3A"
  then have "as_bytes [c] = as_bytes '':''"
    by (simp add: as_bytes_def)
  then show "c = CHR '':''" by simp
qed simp

lemma before_colon_as_bytes:
  "before_colon (as_bytes user) = as_bytes (takeWhile (\<lambda>c. c \<noteq> CHR '':'') user)"
  by (simp add: as_bytes_def takeWhile_map comp_def byte_is_colon)

lemma binding_request_message:
  assumes "length user \<le> 65528"
  shows "binding_request user =
    stun_message (replicate 12 7)
      (stun_body [] (as_bytes user) (replicate (4 * ((length user + 3) div 4) - length user) 0))"
proof -
  let ?P = "4 * ((length user + 3) div 4)"
  have P: "?P \<le> 65528" "length user \<le> ?P"
    using assms by presburger+
  have L: "unat (of_nat (length user) :: usize) = length user"
    using assms by (simp add: unat_of_nat)
  have pad: "unat (padded_len (of_nat (length user))) = ?P"
    using unat_padded_len [of "of_nat (length user)"] assms by (simp add: L)
  then have attrs: "unat (4 + padded_len (of_nat (length user))) = 4 + ?P"
    using P by (simp add: unat_word_ariths)
  from pad have total: "unat (20 + (4 + padded_len (of_nat (length user)))) = 24 + ?P"
    using P by (simp add: unat_word_ariths)
  have "(ucast w :: u16) = of_nat (unat w)" for w :: usize
    by (simp add: of_nat_unat)
  with attrs L have
    "(ucast (4 + padded_len (of_nat (length user))) :: u16) = of_nat (4 + ?P)"
    "(ucast (of_nat (length user) :: usize) :: u16) = of_nat (length user)"
    by metis+
  then show ?thesis
    unfolding binding_request_def Let_def stun_message_def stun_body_def vec_resize_def
      length_as_bytes total
    using P by (simp add: BINDING_REQUEST_def ATTR_USERNAME_def MAGIC_COOKIE_def)
qed

lemma length_binding_request:
  assumes "length user \<le> 65528"
  shows "length (binding_request user) = 24 + 4 * ((length user + 3) div 4)"
proof -
  have "length user \<le> 4 * ((length user + 3) div 4)"
    by presburger
  then show ?thesis
    unfolding binding_request_message [OF assms]
    by (simp add: stun_message_def stun_body_def MAGIC_COOKIE_def)
qed

lemma local_ufrag_request:
  assumes "utf8_valid (as_bytes user)" and "length user \<le> 65528"
    and "takeWhile (\<lambda>c. c \<noteq> CHR '':'') user \<noteq> []"
  shows "local_ufrag (binding_request user) = Ret (Some (takeWhile (\<lambda>c. c \<noteq> CHR '':'') user))"
proof -
  let ?rest = "replicate (4 * ((length user + 3) div 4) - length user) (0 :: u8)"
  let ?body = "stun_body [] (as_bytes user) ?rest"
  have "length ?body = 4 + 4 * ((length user + 3) div 4)"
    by (simp add: stun_body_def)
  moreover have "4 * ((length user + 3) div 4) \<le> 65528"
    using assms(2) by presburger
  ultimately have len: "length ?body < 65536" "4 dvd length ?body"
    by simp_all
  have "utf8_valid (before_colon (as_bytes user))"
    using assms(1) by (rule utf8_valid_before_colon)
  then show ?thesis
    unfolding binding_request_message [OF assms(2)]
    using assms(3) len
    by (intro local_ufrag_message) (simp_all add: username_ufrag_Some before_colon_as_bytes)
qed

text \<open>
  C15. Round trip: on a request built for any user name that is valid UTF-8, fits the 16-bit length
  fields and has something before its first colon, the reader returns exactly that part, and
  the request is as long as header, attribute header and padded user name together.
\<close>

theorem local_ufrag_binding_request:
  assumes "utf8_valid (as_bytes user)" and "length user \<le> 65528"
    and "takeWhile (\<lambda>c. c \<noteq> CHR '':'') user \<noteq> []"
  shows "local_ufrag (binding_request user) = Ret (Some (takeWhile (\<lambda>c. c \<noteq> CHR '':'') user)) \<and>
    length (binding_request user) = 24 + 4 * ((length user + 3) div 4)"
  using local_ufrag_request [OF assms] length_binding_request [OF assms(2)] by simp

theorem local_ufrag_binding_request_witness:
  "local_ufrag (binding_request ''myUfrag:remote'') = Ret (Some ''myUfrag'')"
proof -
  have "utf8_valid (as_bytes ''myUfrag:remote'')"
    by (simp add: as_bytes_def)
  moreover have "takeWhile (\<lambda>c. c \<noteq> CHR '':'') ''myUfrag:remote'' = ''myUfrag''"
    by simp
  ultimately show ?thesis
    using local_ufrag_binding_request [of "''myUfrag:remote''"] by simp
qed

end
