(* ===== verification/Stun_Tests.thy ===== *)
theory Stun_Tests
  imports Stun
begin

text \<open>
  The unit tests of \<^verbatim>\<open>src/proxy/stun.rs\<close>, stated of the model: every assertion the test module makes of
  the reader holds of \<open>local_ufrag\<close>, on the packets the tests build.
\<close>

section \<open>Changes of a buffer\<close>

text \<open>\<open>splice(i..i, xs)\<close>, \<open>[i..][..n].copy_from_slice\<close> and \<open>truncate\<close> of a vector.\<close>

definition splice_at :: "nat \<Rightarrow> 'a list \<Rightarrow> 'a list \<Rightarrow> 'a list" where
  "splice_at i xs v = take i v @ xs @ drop i v"

definition copy_at :: "nat \<Rightarrow> 'a list \<Rightarrow> 'a list \<Rightarrow> 'a list" where
  "copy_at i xs v = take i v @ xs @ drop (i + length xs) v"

section \<open>The tests\<close>

definition extracts_local_ufrag_from_binding_request :: bool where
  "extracts_local_ufrag_from_binding_request \<longleftrightarrow>
     local_ufrag (binding_request ''myUfrag:remote'') = Ret (Some ''myUfrag'')"

definition extracts_whole_username_without_colon :: bool where
  "extracts_whole_username_without_colon \<longleftrightarrow> local_ufrag (binding_request ''myUfrag'') = Ret (Some ''myUfrag'')"

definition skips_attributes_preceding_username :: bool where
  "skips_attributes_preceding_username \<longleftrightarrow>
     (let packet = binding_request ''myUfrag:remote'';
          extra = [0x00, 0x24, 0x00, 0x05, 1, 2, 3, 4, 5, 0, 0, 0];
          packet = splice_at 20 extra packet;
          msg_len = of_nat (length packet - 20) :: u16;
          packet = copy_at 2 (to_be_bytes msg_len) packet in
      local_ufrag packet = Ret (Some ''myUfrag''))"

text \<open>The letter with two dots in UTF-8.\<close>

definition reads_ufrag_as_utf8 :: bool where
  "reads_ufrag_as_utf8 \<longleftrightarrow>
     (let ufrag = ''ufr'' @ map char_of [0xC3, 0xA4 :: nat] @ ''g'' in
      local_ufrag (binding_request (ufrag @ '':remote'')) = Ret (Some ufrag))"

definition rejects_empty_and_short_datagrams :: bool where
  "rejects_empty_and_short_datagrams \<longleftrightarrow> local_ufrag [] = Ret None \<and> local_ufrag (replicate 19 0) = Ret None"

definition rejects_packet_without_magic_cookie :: bool where
  "rejects_packet_without_magic_cookie \<longleftrightarrow> local_ufrag ((binding_request ''myUfrag:remote'')[4 := 0]) = Ret None"

definition rejects_plain_media_payload :: bool where
  "rejects_plain_media_payload \<longleftrightarrow> local_ufrag ((replicate 64 0)[0 := 0x80]) = Ret None"

definition rejects_non_binding_request :: bool where
  "rejects_non_binding_request \<longleftrightarrow>
     local_ufrag ((binding_request ''myUfrag:remote'')[0 := 0x01, 1 := 0x01]) = Ret None"

definition rejects_binding_request_without_username :: bool where
  "rejects_binding_request_without_username \<longleftrightarrow>
     local_ufrag (copy_at 2 (to_be_bytes (0 :: u16)) (take 20 (binding_request ''myUfrag:remote''))) = Ret None"

definition rejects_truncated_attribute_section :: bool where
  "rejects_truncated_attribute_section \<longleftrightarrow>
     (let packet = binding_request ''myUfrag:remote'' in local_ufrag (take (length packet - 4) packet) = Ret None)"

definition rejects_attribute_overrunning_message :: bool where
  "rejects_attribute_overrunning_message \<longleftrightarrow>
     local_ufrag (copy_at 22 (to_be_bytes (0x0100 :: u16)) (binding_request ''myUfrag:remote'')) = Ret None"

definition rejects_empty_or_invalid_ufrag :: bool where
  "rejects_empty_or_invalid_ufrag \<longleftrightarrow>
     local_ufrag (binding_request '':remote'') = Ret None \<and>
     local_ufrag ((binding_request ''ab:remote'')[24 := 0xFF]) = Ret None"

text \<open>All of them pass, by evaluation in the kernel.\<close>

lemma stun_tests_pass:
  extracts_local_ufrag_from_binding_request
  extracts_whole_username_without_colon
  skips_attributes_preceding_username
  reads_ufrag_as_utf8
  rejects_empty_and_short_datagrams
  rejects_packet_without_magic_cookie
  rejects_plain_media_payload
  rejects_non_binding_request
  rejects_binding_request_without_username
  rejects_truncated_attribute_section
  rejects_attribute_overrunning_message
  rejects_empty_or_invalid_ufrag
  by code_simp+

end
