(* ===== verification/Metrics.thy ===== *)
theory Metrics
  imports Prelude
begin

text \<open>
  The counters of \<^verbatim>\<open>src/manager/pmetrics.rs\<close>: one constructor per static of \<open>globals\<close> and the
  name each is exported under.  A call \<open>(*globals::X).increment(1)\<close> of the code appears in the
  models as the output \<open>Incr X\<close>; what the exporter does with it is the metrics crate's business.
\<close>

datatype counter =
    IN_UDP_SOCKET_COUNTER
  | OUT_UDP_SOCKET_COUNTER
  | IDLE_IN_UDP_SOCKET
  | IDLE_OUT_UDP_SOCKET
  | TCP_CONNECTION_TO_SRV
  | TCP_SOCKET_ALLOCATE
  | IDLE_IN_TCP_CONNECTION
  | IDLE_TCP_SERVER
  | IN_CLIENT_UDP_MESSAGE
  | IN_MS_UDP_MESSAGE
  | IN_CLIENT_TCP_MESSAGE
  | IN_MS_TCP_MESSAGE
  | UNROUTED_POOLED_UDP_MESSAGE

definition counter_name :: "counter \<Rightarrow> string" where
  "counter_name c =
     (case c of
        IN_UDP_SOCKET_COUNTER \<Rightarrow> ''allocate_in_udp_socket_total''
      | OUT_UDP_SOCKET_COUNTER \<Rightarrow> ''allocate_out_udp_socket_total''
      | IDLE_IN_UDP_SOCKET \<Rightarrow> ''idle_in_udp_socket_total''
      | IDLE_OUT_UDP_SOCKET \<Rightarrow> ''idle_out_udp_socket_total''
      | TCP_CONNECTION_TO_SRV \<Rightarrow> ''tcp_connections_to_ms_total''
      | TCP_SOCKET_ALLOCATE \<Rightarrow> ''allocate_tcp_server_total''
      | IDLE_IN_TCP_CONNECTION \<Rightarrow> ''idle_in_tcp_connection_total''
      | IDLE_TCP_SERVER \<Rightarrow> ''idle_tcp_server_total''
      | IN_CLIENT_UDP_MESSAGE \<Rightarrow> ''udp_client_income_message_total''
      | IN_MS_UDP_MESSAGE \<Rightarrow> ''udp_mediaserver_income_message_total''
      | IN_CLIENT_TCP_MESSAGE \<Rightarrow> ''tcp_client_income_message_total''
      | IN_MS_TCP_MESSAGE \<Rightarrow> ''tcp_mediaserver_income_message_total''
      | UNROUTED_POOLED_UDP_MESSAGE \<Rightarrow> ''udp_pooled_unrouted_message_total'')"

text \<open>The counters are finitely many, in the order of their declarations.\<close>

instantiation counter :: enum
begin

definition enum_counter :: "counter list" where
  "enum_counter =
     [IN_UDP_SOCKET_COUNTER, OUT_UDP_SOCKET_COUNTER, IDLE_IN_UDP_SOCKET, IDLE_OUT_UDP_SOCKET,
      TCP_CONNECTION_TO_SRV, TCP_SOCKET_ALLOCATE, IDLE_IN_TCP_CONNECTION, IDLE_TCP_SERVER,
      IN_CLIENT_UDP_MESSAGE, IN_MS_UDP_MESSAGE, IN_CLIENT_TCP_MESSAGE, IN_MS_TCP_MESSAGE,
      UNROUTED_POOLED_UDP_MESSAGE]"

definition enum_all_counter :: "(counter \<Rightarrow> bool) \<Rightarrow> bool" where
  "enum_all_counter P \<longleftrightarrow> list_all P enum_class.enum"

definition enum_ex_counter :: "(counter \<Rightarrow> bool) \<Rightarrow> bool" where
  "enum_ex_counter P \<longleftrightarrow> list_ex P enum_class.enum"

instance
proof
  have all: "set (enum_class.enum :: counter list) = UNIV"
    by (auto simp: enum_counter_def intro: counter.exhaust)
  then show "(UNIV :: counter set) = set enum_class.enum" ..
  show "distinct (enum_class.enum :: counter list)"
    by (simp add: enum_counter_def)
  show "enum_class.enum_all P \<longleftrightarrow> Ball UNIV P" "enum_class.enum_ex P \<longleftrightarrow> Bex UNIV P" for P :: "counter \<Rightarrow> bool"
    by (simp_all add: enum_all_counter_def enum_ex_counter_def list_all_iff list_ex_iff all)
qed

end

text \<open>No two counters share an exported name.\<close>

lemma inj_counter_name: "inj counter_name"
proof -
  have "distinct (map counter_name enum_class.enum)"
    by (simp add: enum_counter_def counter_name_def)
  then show ?thesis
    by (simp add: distinct_map UNIV_enum)
qed

end
