(* ===== verification/Proxy_Types.thy ===== *)
theory Proxy_Types
  imports Metrics
begin

text \<open>
  The data shared by the proxy's tasks: addresses, sessions, endpoints and the messages of
  \<^verbatim>\<open>src/proxy.rs\<close> (lines 23 to 141).  Tasks, channels and sockets are known to the code only
  through the handles the runtime returns; the model names them by numbers.
\<close>

type_synonym task_id = nat
type_synonym chan_id = nat
type_synonym sock_id = nat
type_synonym oneshot_id = nat

text \<open>\<open>std::net::SocketAddr\<close>: address and port, with flow label and scope for IPv6.\<close>

datatype SocketAddr = V4 "32 word" u16 | V6 "128 word" u16 u32 u32

text \<open>
  \<open>FixBoxError::fix_box\<close>: the error is replaced by its printed message; here errors are
  messages already.
\<close>

definition fix_box :: "'a result \<Rightarrow> 'a result" where
  "fix_box r = (case r of Inl e \<Rightarrow> Inl e | Inr t \<Rightarrow> Inr t)"

lemma fix_box_id [simp]: "fix_box r = r"
  by (cases r) (simp_all add: fix_box_def)

record Session =
  s_port :: u16
  s_session_id :: string

record Endpoint =
  ep_port :: u16
  ep_ip :: string
  ep_session_id :: string

definition Endpoint_new :: "u16 \<Rightarrow> string \<Rightarrow> string \<Rightarrow> Endpoint" where
  "Endpoint_new p addr session_id = \<lparr>ep_port = p, ep_ip = addr, ep_session_id = session_id\<rparr>"

text \<open>
  \<open>Endpoint::socket_addr\<close>.  Name resolution (\<open>to_socket_addrs\<close> on the pair of host and port) is
  the parameter \<open>resolve\<close>.
\<close>

definition socket_addr :: "(string \<Rightarrow> u16 \<Rightarrow> SocketAddr list result) \<Rightarrow> Endpoint \<Rightarrow> SocketAddr result" where
  "socket_addr resolve ep =
     (case resolve (ep_ip ep) (ep_port ep) of
        Inl e \<Rightarrow> Inl e
      | Inr addrs \<Rightarrow>
          (case iter_next addrs of
             None \<Rightarrow> Inl ''Can not resolve endpoint address''
           | Some addr \<Rightarrow> Inr addr))"

text \<open>\<open>impl fmt::Display for Endpoint\<close>\<close>

definition Endpoint_display :: "Endpoint \<Rightarrow> string" where
  "Endpoint_display ep = ep_ip ep @ '':'' @ dec_string (unat (ep_port ep))"

datatype ProxyClientMsg = ClientEnded SocketAddr | DataSent | Die

datatype ProxyManagerMsg =
    CreateUdpProxy oneshot_id Endpoint
  | CreateTcpProxy oneshot_id Endpoint
  | CreateUdpProxyRs u16
  | CreateTcpProxyRs u16
  | UdpProxyErrorRs err
  | TcpProxyErrorRs err
  | DeleteUdpProxy oneshot_id Endpoint
  | DeleteTcpProxy oneshot_id Endpoint
  | DeleteUdpProxyRs
  | DeleteTcpProxyRs
  | UdpEndpointEnded Endpoint
  | TcpEndpointEnded Endpoint

datatype UdpProxyMode = PerSession | Pooled

text \<open>The 4 KiB receive buffers: a read or a datagram is cut to the buffer.\<close>

definition BUF_LEN :: nat where "BUF_LEN = 4 * 1024"

definition recv_buf :: "u8 list \<Rightarrow> u8 list" where
  "recv_buf d = take BUF_LEN d"

lemma length_recv_buf: "length (recv_buf d) = min (length d) 4096"
  by (simp add: recv_buf_def BUF_LEN_def min.commute)

lemma recv_buf_id: "length d \<le> 4096 \<Longrightarrow> recv_buf d = d"
  by (simp add: recv_buf_def BUF_LEN_def)

end
