(* ===== verification/Event_Loop.thy ===== *)
theory Event_Loop
  imports Prelude
begin

text \<open>
  The shape every task of the proxy has: \<open>loop { select! { \<dots> } }\<close> followed by an epilogue.  An
  event is the branch that completed together with the results of the calls the branch makes;
  a step returns the new state, what it output and whether the loop goes on.  \<open>run_loop\<close> feeds a
  finite sequence of events to such a loop.  The locales state the contracts the tasks share: an
  invariant kept by every step, a property of everything that is output, and an accounting of
  owned resources (what is acquired is either still owned or was released).
\<close>

datatype loop_ctl = Continue | Break

type_synonym ('s, 'e, 'o) loop_step = "'s \<Rightarrow> 'e \<Rightarrow> 's \<times> 'o list \<times> loop_ctl"

fun run_loop :: "('s, 'e, 'o) loop_step \<Rightarrow> ('s \<Rightarrow> 'o list) \<Rightarrow> 's \<Rightarrow> 'e list \<Rightarrow> 's \<times> 'o list \<times> loop_ctl" where
  "run_loop step fin s [] = (s, [], Continue)"
| "run_loop step fin s (e # es) =
     (case step s e of
        (s', outs, Break) \<Rightarrow> (s', outs @ fin s', Break)
      | (s', outs, Continue) \<Rightarrow>
          (case run_loop step fin s' es of (t, outs', c) \<Rightarrow> (t, outs @ outs', c)))"

lemma run_loop_append:
  assumes "run_loop step fin s es = (t, outs, Continue)"
  shows "run_loop step fin s (es @ fs) =
    (case run_loop step fin t fs of (u, outs', c) \<Rightarrow> (u, outs @ outs', c))"
  using assms
  by (induction es arbitrary: s outs) (auto split: prod.splits loop_ctl.splits)

text \<open>After the loop has ended further events have no effect: the task is gone.\<close>

lemma run_loop_ended:
  assumes "run_loop step fin s es = (t, outs, Break)"
  shows "run_loop step fin s (es @ fs) = (t, outs, Break)"
  using assms
  by (induction es arbitrary: s outs) (auto split: prod.splits loop_ctl.splits)

section \<open>Invariants and outputs\<close>

locale event_loop =
  fixes step :: "('s, 'e, 'o) loop_step"
    and fin :: "'s \<Rightarrow> 'o list"
    and inv :: "'s \<Rightarrow> bool"
  assumes step_inv: "inv s \<Longrightarrow> step s e = (s', outs, c) \<Longrightarrow> inv s'"
begin

lemma run_inv: "inv s \<Longrightarrow> run_loop step fin s es = (t, outs, c) \<Longrightarrow> inv t"
proof (induction es arbitrary: s outs)
  case (Cons e es)
  obtain s' outs' c' where "step s e = (s', outs', c')"
    by (metis prod_cases3)
  moreover from this Cons.prems(1) have "inv s'"
    by (rule step_inv [rotated])
  ultimately show ?case
    using Cons by (cases c') (auto split: prod.splits)
qed simp

lemma run_outputs:
  assumes "inv s" and "run_loop step fin s es = (t, outs, c)"
    and step_out: "\<And>s e s' os c. inv s \<Longrightarrow> step s e = (s', os, c) \<Longrightarrow> list_all P os"
    and fin_out: "\<And>s. inv s \<Longrightarrow> list_all P (fin s)"
  shows "list_all P outs"
  using assms(1,2)
proof (induction es arbitrary: s outs)
  case (Cons e es)
  obtain s' outs' c' where st: "step s e = (s', outs', c')"
    by (metis prod_cases3)
  with Cons.prems(1) have "inv s'" and "list_all P outs'"
    using step_inv step_out by blast+
  with Cons st show ?case
    using fin_out by (cases c') (auto split: prod.splits)
qed simp

text \<open>The epilogue runs once, at the very end, and only if the loop was left.\<close>

lemma run_epilogue:
  assumes "inv s" and "run_loop step fin s es = (t, outs, c)"
    and step_out: "\<And>s e s' os c. inv s \<Longrightarrow> step s e = (s', os, c) \<Longrightarrow> list_all P os"
  shows "\<exists>outs0. list_all P outs0 \<and> outs = outs0 @ (if c = Break then fin t else [])"
  using assms(1,2)
proof (induction es arbitrary: s outs)
  case (Cons e es)
  obtain s' outs' c' where st: "step s e = (s', outs', c')"
    by (metis prod_cases3)
  with Cons.prems(1) have s': "inv s'" "list_all P outs'"
    using step_inv step_out by blast+
  show ?case
  proof (cases c')
    case Break
    with Cons.prems(2) st s' show ?thesis by auto
  next
    case Continue
    with Cons.prems(2) st obtain outs'' where
      r: "run_loop step fin s' es = (t, outs'', c)" "outs = outs' @ outs''"
      by (auto split: prod.splits)
    with Cons.IH [OF s'(1) r(1)] s'(2) show ?thesis
      by (metis append.assoc list_all_append)
  qed
qed simp

end

section \<open>Ownership\<close>

text \<open>
  \<open>acquired\<close> and \<open>released\<close> read resources off an output; \<open>owned\<close> reads them off the state.
  If every step keeps the balance and the epilogue releases what is owned, nothing leaks.
\<close>

lemma balance_trans:
  "A \<union> B1 \<subseteq> A' \<union> R1 \<Longrightarrow> A' \<union> B2 \<subseteq> X \<union> R2 \<Longrightarrow> A \<union> (B1 \<union> B2) \<subseteq> X \<union> (R1 \<union> R2)"
  by blast

locale resource_ledger =
  fixes step :: "('s, 'e, 'o) loop_step"
    and owned :: "'s \<Rightarrow> 'r set"
    and acquired :: "'o \<Rightarrow> 'r set"
    and released :: "'o \<Rightarrow> 'r set"
  assumes step_owned: "step s e = (s', outs, c) \<Longrightarrow>
      owned s \<union> \<Union> (acquired ` set outs) \<subseteq> owned s' \<union> \<Union> (released ` set outs)"
begin

lemma running_owned:
  "run_loop step fin s es = (t, outs, Continue) \<Longrightarrow>
     owned s \<union> \<Union> (acquired ` set outs) \<subseteq> owned t \<union> \<Union> (released ` set outs)"
proof (induction es arbitrary: s outs)
  case (Cons e es)
  then obtain s' outs' outs'' where st: "step s e = (s', outs', Continue)"
    and r: "run_loop step fin s' es = (t, outs'', Continue)" "outs = outs' @ outs''"
    by (auto split: prod.splits loop_ctl.splits)
  show ?case
    using balance_trans [OF step_owned [OF st] Cons.IH [OF r(1)]] r(2) by (simp add: image_Un)
qed auto

end

text \<open>A task that also ends, and gives up what it owns when it does.\<close>

locale resource_owner = resource_ledger +
  fixes fin :: "'a \<Rightarrow> 'c list"
  assumes fin_owned: "owned s \<subseteq> \<Union> (released ` set (fin s))"
    and fin_acquires: "\<Union> (acquired ` set (fin s)) = {}"
begin

lemma run_owned:
  "run_loop step fin s es = (t, outs, c) \<Longrightarrow>
     owned s \<union> \<Union> (acquired ` set outs) \<subseteq>
       (if c = Continue then owned t else {}) \<union> \<Union> (released ` set outs)"
proof (induction es arbitrary: s outs)
  case (Cons e es)
  obtain s' outs' c' where st: "step s e = (s', outs', c')"
    by (metis prod_cases3)
  note bal = step_owned [OF st]
  show ?case
  proof (cases c')
    case Break
    with Cons.prems st have "outs = outs' @ fin s'" "c = Break"
      by auto
    moreover have fin_bal: "owned s' \<union> \<Union> (acquired ` set (fin s')) \<subseteq> {} \<union> \<Union> (released ` set (fin s'))"
      using fin_owned [of s'] fin_acquires [of s'] by simp
    ultimately show ?thesis
      using balance_trans [OF bal fin_bal] by (simp add: image_Un)
  next
    case Continue
    with Cons.prems st obtain outs'' where
      r: "run_loop step fin s' es = (t, outs'', c)" "outs = outs' @ outs''"
      by (auto split: prod.splits)
    show ?thesis
      using balance_trans [OF bal Cons.IH [OF r(1)]] r(2) by (simp add: image_Un)
  qed
qed auto

lemma run_ended_released:
  "run_loop step fin s es = (t, outs, Break) \<Longrightarrow>
     owned s \<union> \<Union> (acquired ` set outs) \<subseteq> \<Union> (released ` set outs)"
  using run_owned by fastforce

end

end
