(* ===== verification/Udp_Relay.thy ===== *)
theory Udp_Relay
  imports Proxy_Types Event_Loop
begin

text \<open>
  The relay of one UDP client, \<^verbatim>\<open>src/proxy/udp_client.rs\<close>: \<open>ProxyClient\<close>, its handle and its
  allocation.  Both kinds of UDP socket, per session and pooled, start these relays; the state of
  the per-session endpoint and the effects of all UDP tasks are declared here too.

  Each function takes the results of the runtime calls it makes (bind, connect, send, receive)
  as arguments and returns, besides its value, the list of its effects in program order, so the
  statements hold for every behaviour of the network and every interleaving of the tasks.
\<close>

section \<open>State\<close>

record udp_socket =
  us_id :: sock_id
  us_peer :: SocketAddr

record ProxyClientHandler =
  h_socket :: udp_socket
  h_sender :: chan_id
  h_handler :: task_id

text \<open>\<open>control_tx\<close> and \<open>control_rx\<close> are the two ends of the channel \<open>c_control\<close>.\<close>

record ProxyClient =
  c_socket :: udp_socket
  c_target_socket :: sock_id
  c_addr :: SocketAddr
  c_msg_tx :: chan_id
  c_control :: chan_id

record ProxyEndpoint =
  e_udp_socket :: sock_id
  e_endpoint :: Endpoint
  e_remote_addr :: SocketAddr
  e_clients :: "(SocketAddr, ProxyClientHandler) fmap"

record ProxyEndpointHandler =
  eh_local_port :: u16
  eh_handle :: task_id

text \<open>
  Effects: a counter increment, a datagram sent on a connected socket or to an address, a message
  put on a channel, a channel's receiver closed, tasks started and aborted, a message to the
  manager, and the acknowledgements of the pooled socket's control messages.
\<close>

datatype udp_effect =
    Incr counter
  | SendDatagram udp_socket "u8 list"
  | SendTo sock_id SocketAddr "u8 list"
  | ChanSend chan_id ProxyClientMsg
  | ChanClose chan_id
  | SpawnRelay task_id ProxyClient
  | AbortRelays "task_id fset"
  | SpawnEndpoint task_id ProxyEndpoint
  | SpawnPooled task_id sock_id
  | AbortEndpoint task_id
  | ToManager ProxyManagerMsg
  | RespondAdded oneshot_id
  | RespondFound oneshot_id bool

text \<open>Dropping a \<open>ProxyClientHandler\<close> aborts its relay task.\<close>

definition ProxyClientHandler_drop :: "ProxyClientHandler \<Rightarrow> udp_effect list" where
  "ProxyClientHandler_drop h = [AbortRelays {|h_handler h|}]"

section \<open>The relay of one client\<close>

definition ProxyClient_new :: "udp_socket \<Rightarrow> sock_id \<Rightarrow> SocketAddr \<Rightarrow> chan_id \<Rightarrow> chan_id \<Rightarrow> ProxyClient \<times> udp_effect list" where
  "ProxyClient_new sock target_socket addr msg_tx control =
     (\<lparr>c_socket = sock, c_target_socket = target_socket, c_addr = addr, c_msg_tx = msg_tx,
       c_control = control\<rparr>,
      [Incr OUT_UDP_SOCKET_COUNTER])"

text \<open>
  \<open>ProxyClient::send\<close>: the datagram first, then a \<open>DataSent\<close> on the relay's control channel.
  \<open>io\<close> gives the error of either call, if it fails.
\<close>

record send_io =
  io_socket_err :: "err option"
  io_sender_err :: "err option"

definition ProxyClient_send :: "udp_socket \<Rightarrow> u8 list \<Rightarrow> chan_id \<Rightarrow> send_io \<Rightarrow> unit result \<times> udp_effect list" where
  "ProxyClient_send sock data sender io =
     (case io_socket_err io of
        Some e \<Rightarrow> (Inl e, [])
      | None \<Rightarrow>
          (case io_sender_err io of
             Some e \<Rightarrow> (Inl e, [SendDatagram sock data])
           | None \<Rightarrow> (Inr (), [SendDatagram sock data, ChanSend sender DataSent])))"

text \<open>
  The branches of the relay's \<open>select!\<close>: a datagram (or an error) from the target together with
  the error of forwarding it, if any; a control message, or \<open>None\<close> when all senders are gone;
  the idle timer.
\<close>

datatype relay_event =
    RelayRecv "u8 list result" "err option"
  | RelayControl "ProxyClientMsg option"
  | RelayTimeout

fun ProxyClient_step :: "(ProxyClient, relay_event, udp_effect) loop_step" where
  "ProxyClient_step c (RelayRecv a send_err) =
     (case a of
        Inr d \<Rightarrow>
          (case send_err of
             Some e \<Rightarrow> (c, [Incr IN_MS_UDP_MESSAGE], Break)
           | None \<Rightarrow> (c, [Incr IN_MS_UDP_MESSAGE, SendTo (c_target_socket c) (c_addr c) (recv_buf d)], Continue))
      | Inl e \<Rightarrow> (c, [], Break))"
| "ProxyClient_step c (RelayControl b) =
     (case b of
        Some msg \<Rightarrow>
          (case msg of
             DataSent \<Rightarrow> (c, [Incr IN_CLIENT_UDP_MESSAGE], Continue)
           | Die \<Rightarrow> (c, [], Break)
           | ClientEnded addr \<Rightarrow> (c, [], Break))
      | None \<Rightarrow> (c, [], Break))"
| "ProxyClient_step c RelayTimeout = (c, [Incr IDLE_OUT_UDP_SOCKET], Break)"

text \<open>After the loop: the control channel is closed before the end is reported to the owner.\<close>

definition ProxyClient_finish :: "ProxyClient \<Rightarrow> udp_effect list" where
  "ProxyClient_finish c = [ChanClose (c_control c), ChanSend (c_msg_tx c) (ClientEnded (c_addr c))]"

definition ProxyClient_run :: "ProxyClient \<Rightarrow> relay_event list \<Rightarrow> ProxyClient \<times> udp_effect list \<times> loop_ctl" where
  "ProxyClient_run = run_loop ProxyClient_step ProxyClient_finish"

section \<open>Allocating relays\<close>

text \<open>\<open>Connected\<close> carries the handles the runtime returned: socket, control channel and task.\<close>

datatype alloc_io = BindErr err | ConnectErr err | Connected sock_id chan_id task_id

definition allocate_handler :: "SocketAddr \<Rightarrow> SocketAddr \<Rightarrow> sock_id \<Rightarrow> chan_id \<Rightarrow> alloc_io
    \<Rightarrow> ProxyClientHandler result \<times> udp_effect list" where
  "allocate_handler remote_addr client_addr target_socket msg_sender io =
     (case io of
        BindErr e \<Rightarrow> (Inl e, [])
      | ConnectErr e \<Rightarrow> (Inl ''Something went wrong'', [])
      | Connected sid cid tid \<Rightarrow>
          (let arc_socket = \<lparr>us_id = sid, us_peer = remote_addr\<rparr>;
               (client, effs) = ProxyClient_new arc_socket target_socket client_addr msg_sender cid
           in (Inr \<lparr>h_socket = arc_socket, h_sender = cid, h_handler = tid\<rparr>,
               effs @ [SpawnRelay tid client])))"

definition client_tasks :: "(SocketAddr, ProxyClientHandler) fmap \<Rightarrow> task_id fset" where
  "client_tasks m = h_handler |`| fmran m"

section \<open>Reading the effects\<close>

fun relay_spawned :: "udp_effect \<Rightarrow> task_id set" where
  "relay_spawned (SpawnRelay t c) = {t}"
| "relay_spawned _ = {}"

fun relay_aborted :: "udp_effect \<Rightarrow> task_id set" where
  "relay_aborted (AbortRelays ts) = fset ts"
| "relay_aborted _ = {}"

abbreviation spawned :: "udp_effect list \<Rightarrow> task_id set" where
  "spawned outs \<equiv> \<Union> (relay_spawned ` set outs)"

abbreviation aborted :: "udp_effect list \<Rightarrow> task_id set" where
  "aborted outs \<equiv> \<Union> (relay_aborted ` set outs)"

text \<open>The datagrams a relay returned to its client, and those it received from the target.\<close>

fun returned :: "udp_effect \<Rightarrow> (sock_id \<times> SocketAddr \<times> u8 list) list" where
  "returned (SendTo sock addr d) = [(sock, addr, d)]"
| "returned _ = []"

fun arrived :: "relay_event \<Rightarrow> u8 list list" where
  "arrived (RelayRecv (Inr d) _) = [d]"
| "arrived _ = []"

abbreviation sent_back :: "udp_effect list \<Rightarrow> (sock_id \<times> SocketAddr \<times> u8 list) list" where
  "sent_back outs \<equiv> concat (map returned outs)"

abbreviation received :: "relay_event list \<Rightarrow> u8 list list" where
  "received es \<equiv> concat (map arrived es)"

text \<open>The datagrams a task sends towards the target, each with the connected socket it uses.\<close>

fun sent_on :: "udp_effect \<Rightarrow> (udp_socket \<times> u8 list) list" where
  "sent_on (SendDatagram us d) = [(us, d)]"
| "sent_on _ = []"

abbreviation sent_to_targets :: "udp_effect list \<Rightarrow> (udp_socket \<times> u8 list) list" where
  "sent_to_targets outs \<equiv> concat (map sent_on outs)"

abbreviation to_peers :: "udp_effect list \<Rightarrow> (SocketAddr \<times> u8 list) list" where
  "to_peers outs \<equiv> map (\<lambda>(us, d). (us_peer us, d)) (sent_to_targets outs)"

fun end_report :: "udp_effect \<Rightarrow> bool" where
  "end_report (ChanClose _) = True"
| "end_report (ChanSend _ (ClientEnded _)) = True"
| "end_report (ToManager _) = True"
| "end_report _ = False"

section \<open>Properties of the relay\<close>

lemma relay_step_state: "ProxyClient_step c e = (c', outs, ctl) \<Longrightarrow> c' = c"
  by (cases e) (auto split: sum.splits option.splits ProxyClientMsg.splits)

lemma relay_step_sent:
  "ProxyClient_step c e = (c', outs, Continue) \<Longrightarrow>
     sent_back outs = map (\<lambda>d. (c_target_socket c, c_addr c, recv_buf d)) (arrived e)"
  by (cases e) (auto split: sum.splits option.splits ProxyClientMsg.splits)

lemma relay_step_sent_break:
  "ProxyClient_step c e = (c', outs, Break) \<Longrightarrow> sent_back outs = []"
  by (cases e) (auto split: sum.splits option.splits ProxyClientMsg.splits)

lemma relay_step_no_report: "ProxyClient_step c e = (c', outs, ctl) \<Longrightarrow> list_all (\<lambda>x. \<not> end_report x) outs"
  by (cases e) (auto split: sum.splits option.splits ProxyClientMsg.splits)

interpretation relay_loop: event_loop ProxyClient_step ProxyClient_finish "\<lambda>s. s = c" for c
  by unfold_locales (use relay_step_state in blast)

text \<open>
  C28. The relay's return path: datagrams from the target reach the client's address through
  the inbound socket in the order they were received, each cut to the 4096-byte buffer and none
  duplicated or reordered; while the relay is running none of them is missing.
\<close>

theorem ProxyClient_run_forwards:
  assumes "ProxyClient_run c es = (c', outs, ctl)"
  shows "(\<exists>lost. map (\<lambda>d. (c_target_socket c, c_addr c, recv_buf d)) (received es) = sent_back outs @ lost) \<and>
    (ctl = Continue \<longrightarrow>
       sent_back outs = map (\<lambda>d. (c_target_socket c, c_addr c, recv_buf d)) (received es))"
  using assms
proof (induction es arbitrary: outs)
  case Nil
  then show ?case by (simp add: ProxyClient_run_def)
next
  case (Cons e es)
  obtain outs1 ctl1 where st: "ProxyClient_step c e = (c, outs1, ctl1)"
    using relay_step_state by (metis prod_cases3)
  show ?case
  proof (cases ctl1)
    case Break
    with Cons.prems st have outs: "outs = outs1 @ ProxyClient_finish c" and "ctl = Break"
      by (auto simp: ProxyClient_run_def)
    moreover have "sent_back outs1 = []"
      using st Break relay_step_sent_break by blast
    then have none_sent: "sent_back outs = []"
      unfolding outs by (simp add: ProxyClient_finish_def)
    ultimately show ?thesis
      unfolding none_sent by simp
  next
    case Continue
    with Cons.prems st obtain outs2 where
      r: "ProxyClient_run c es = (c', outs2, ctl)" "outs = outs1 @ outs2"
      by (auto simp: ProxyClient_run_def split: prod.splits)
    moreover have "sent_back outs1 = map (\<lambda>d. (c_target_socket c, c_addr c, recv_buf d)) (arrived e)"
      using st Continue relay_step_sent by blast
    ultimately show ?thesis
      using Cons.IH [OF r(1)] by auto
  qed
qed

theorem ProxyClient_run_forwards_witness:
  "\<exists>c outs. ProxyClient_run c [RelayRecv (Inr [1, 2]) None, RelayControl (Some DataSent), RelayRecv (Inr [3]) None]
      = (c, outs, Continue) \<and>
     sent_back outs = [(c_target_socket c, c_addr c, [1, 2]), (c_target_socket c, c_addr c, [3])]"
proof -
  define c where "c = fst (ProxyClient_new \<lparr>us_id = 1, us_peer = V4 1 80\<rparr> 7 (V4 2 90) 3 4)"
  let ?es = "[RelayRecv (Inr [1, 2]) None, RelayControl (Some DataSent), RelayRecv (Inr [3]) None]"
  obtain c' outs ctl where run: "ProxyClient_run c ?es = (c', outs, ctl)"
    by (metis prod_cases3)
  then have "ctl = Continue" "c' = c"
    by (auto simp: ProxyClient_run_def)
  with run ProxyClient_run_forwards [OF run] show ?thesis
    by (auto simp: recv_buf_id)
qed

text \<open>
  How a relay ends: it closes its control channel and then reports \<open>ClientEnded\<close> for its own
  address, each exactly once and as the last things it does, and a relay that is still running
  has done neither.  This order is what lets the owner tell a finished relay from a newer one.
\<close>

lemma ProxyClient_run_reports_end:
  assumes "ProxyClient_run c es = (c', outs, ctl)"
  shows "\<exists>outs0. list_all (\<lambda>x. \<not> end_report x) outs0 \<and>
    outs = outs0 @ (if ctl = Break
      then [ChanClose (c_control c), ChanSend (c_msg_tx c) (ClientEnded (c_addr c))] else [])"
proof -
  note run = assms [unfolded ProxyClient_run_def]
  have "c' = c"
    by (rule relay_loop.run_inv [OF refl run])
  moreover have "\<exists>outs0. list_all (\<lambda>x. \<not> end_report x) outs0 \<and>
      outs = outs0 @ (if ctl = Break then ProxyClient_finish c' else [])"
    using relay_step_no_report by (rule relay_loop.run_epilogue [OF refl run])
  ultimately show ?thesis
    by (simp only: ProxyClient_finish_def)
qed

lemma ProxyClient_run_reports_end_witness:
  "\<exists>c c' outs. ProxyClient_run c [RelayTimeout] = (c', outs, Break) \<and>
     (\<exists>outs0. list_all (\<lambda>x. \<not> end_report x) outs0 \<and>
        outs = outs0 @ [ChanClose (c_control c), ChanSend (c_msg_tx c) (ClientEnded (c_addr c))])"
proof -
  define c where "c = fst (ProxyClient_new \<lparr>us_id = 1, us_peer = V4 1 80\<rparr> 7 (V4 2 90) 3 4)"
  have run: "ProxyClient_run c [RelayTimeout] = (c, Incr IDLE_OUT_UDP_SOCKET # ProxyClient_finish c, Break)"
    by (simp add: ProxyClient_run_def)
  with ProxyClient_run_reports_end [OF run] show ?thesis
    by auto
qed

section \<open>Relays and their owner\<close>

text \<open>Traffic goes to the target only, and relays answer through the inbound socket.\<close>

fun to_target :: "SocketAddr \<Rightarrow> sock_id \<Rightarrow> udp_effect \<Rightarrow> bool" where
  "to_target remote sock (SendDatagram us d) \<longleftrightarrow> us_peer us = remote"
| "to_target remote sock (SpawnRelay t c) \<longleftrightarrow> us_peer (c_socket c) = remote \<and> c_target_socket c = sock"
| "to_target remote sock (SendTo _ _ _) \<longleftrightarrow> False"
| "to_target remote sock _ \<longleftrightarrow> True"

lemma mem_client_tasks: "t |\<in>| client_tasks m \<longleftrightarrow> (\<exists>a h. fmlookup m a = Some h \<and> t = h_handler h)"
proof -
  have "t |\<in>| client_tasks m \<longleftrightarrow> (\<exists>h. h |\<in>| fmran m \<and> t = h_handler h)"
    unfolding client_tasks_def by auto
  then show ?thesis
    unfolding fmlookup_ran_iff by blast
qed

lemma allocate_handler_Inr:
  "allocate_handler remote addr sock tx io = (Inr h, effs) \<Longrightarrow>
     us_peer (h_socket h) = remote \<and> list_all (to_target remote sock) effs \<and>
     spawned effs = {h_handler h} \<and> aborted effs = {}"
  by (auto simp: allocate_handler_def ProxyClient_new_def Let_def split: alloc_io.splits)

lemma allocate_handler_Inl:
  "allocate_handler remote addr sock tx io = (Inl e, effs) \<Longrightarrow> effs = []"
  by (auto simp: allocate_handler_def ProxyClient_new_def Let_def split: alloc_io.splits)

lemma ProxyClient_send_effects:
  "ProxyClient_send us d tx io = (r, effs) \<Longrightarrow>
     set effs \<subseteq> {SendDatagram us d, ChanSend tx DataSent}"
  by (auto simp: ProxyClient_send_def split: option.splits)

lemma send_tasks:
  "ProxyClient_send us d tx io = (r, effs) \<Longrightarrow>
     spawned effs = {} \<and> aborted effs = {}"
  by (auto simp: ProxyClient_send_def split: option.splits)

abbreviation quiet_send :: send_io where
  "quiet_send \<equiv> \<lparr>io_socket_err = None, io_sender_err = None\<rparr>"

end
