(* ===== verification/Relay_Host.thy ===== *)
theory Relay_Host
  imports Udp_Relay
begin

text \<open>
  A task that owns relays, together with the relays: the composition of a host (a per-session
  endpoint or a pooled socket), the relay tasks it has started and the channel on which ended
  relays report, interleaved in any order.  In the system \<open>is_closed\<close> tells whether the relay
  that holds the channel's receiver is gone, the runtime hands out tasks and channels that are not
  in use, and an abort takes effect at once.

  The locale \<open>relay_host\<close> is the contract of a host: a step only drops clients, aborting exactly
  their relays, and may open one relay in between.  It gives the ownership contract
  \<open>resource_owner\<close> and the invariant that ties the client table to the running relays.
\<close>

section \<open>Client tables\<close>

type_synonym client_table = "(SocketAddr, ProxyClientHandler) fmap"

text \<open>The relays of the clients that went.\<close>

definition gone :: "client_table \<Rightarrow> client_table \<Rightarrow> task_id set" where
  "gone m m' = {h_handler h | a h. fmlookup m a = Some h \<and> fmlookup m' a = None}"

lemma goneI: "fmlookup m a = Some h \<Longrightarrow> fmlookup m' a = None \<Longrightarrow> h_handler h \<in> gone m m'"
  by (auto simp: gone_def)

text \<open>Clients go, and exactly their relays are aborted.\<close>

definition drops :: "client_table \<Rightarrow> udp_effect list \<Rightarrow> client_table \<Rightarrow> bool" where
  "drops m outs m' \<longleftrightarrow>
     (\<forall>a h. fmlookup m' a = Some h \<longrightarrow> fmlookup m a = Some h) \<and> spawned outs = {} \<and> aborted outs = gone m m'"

lemma dropsD:
  assumes "drops m outs m'"
  shows "fmlookup m' a = Some h \<Longrightarrow> fmlookup m a = Some h"
    and "spawned outs = {}" and "aborted outs = gone m m'"
  using assms by (simp_all add: drops_def)

lemma drops_refl: "m' = m \<Longrightarrow> spawned outs = {} \<Longrightarrow> aborted outs = {} \<Longrightarrow> drops m outs m'"
  by (auto simp: drops_def gone_def)

lemma drops_one: "fmlookup m a = Some h \<Longrightarrow> drops m [AbortRelays {|h_handler h|}] (fmdrop a m)"
  by (auto simp: drops_def gone_def split: if_splits)

lemma drops_append:
  assumes st: "drops m outs m1" and tu: "drops m1 outs' m2"
  shows "drops m (outs @ outs') m2"
proof -
  have "fmlookup m a = Some h \<and> fmlookup m2 a = None \<longleftrightarrow>
      fmlookup m a = Some h \<and> fmlookup m1 a = None \<or> fmlookup m1 a = Some h \<and> fmlookup m2 a = None" for a h
    using dropsD(1) [OF st, of a] dropsD(1) [OF tu, of a]
    by (cases "fmlookup m1 a"; cases "fmlookup m2 a") auto
  then have "gone m m2 = gone m m1 \<union> gone m1 m2"
    unfolding gone_def by (simp only: Un_def) blast
  with dropsD [OF st] dropsD [OF tu] show ?thesis
    by (simp add: drops_def image_Un)
qed

text \<open>A step of a host: clients go, perhaps a relay is opened, clients go.\<close>

inductive changes :: "alloc_io option \<Rightarrow> client_table \<Rightarrow> udp_effect list \<Rightarrow> client_table \<Rightarrow> bool" where
  only_drops: "drops m outs m' \<Longrightarrow> changes al m outs m'"
| opens: "drops m outs1 m1 \<Longrightarrow> fmlookup m1 a = None \<Longrightarrow> allocate_handler peer a sock tx al = (Inr h, outs2) \<Longrightarrow>
    drops (fmupd a h m1) outs3 m' \<Longrightarrow> changes (Some al) m (outs1 @ outs2 @ outs3) m'"

lemma changes_quiet:
  assumes "changes al m outs m'" "spawned quiet = {}" "aborted quiet = {}"
  shows "changes al m (quiet @ outs) m'"
  using assms(1)
proof cases
  case only_drops
  then show ?thesis
    using drops_append [OF drops_refl [OF refl assms(2,3)]] by (auto intro: changes.only_drops)
next
  case (opens outs1 m1 a peer sock tx al h outs2 outs3)
  then show ?thesis
    using changes.opens [OF drops_append [OF drops_refl [OF refl assms(2,3)] opens(3)] opens(4-6)] by simp
qed

lemma drops_tasks:
  assumes "drops m outs m'"
  shows "fset (client_tasks m) \<union> spawned outs \<subseteq> fset (client_tasks m') \<union> aborted outs"
proof -
  have "fset (client_tasks m) \<subseteq> fset (client_tasks m') \<union> gone m m'"
  proof
    fix t
    assume "t \<in> fset (client_tasks m)"
    then obtain a h where h: "fmlookup m a = Some h" "t = h_handler h"
      by (auto simp: mem_client_tasks)
    with dropsD(1) [OF assms, of a] show "t \<in> fset (client_tasks m') \<union> gone m m'"
      by (cases "fmlookup m' a") (auto simp: mem_client_tasks gone_def)
  qed
  with dropsD(2,3) [OF assms] show ?thesis by simp
qed

lemma open_tasks:
  assumes "fmlookup m a = None" "allocate_handler peer a sock tx al = (Inr h, outs)"
  shows "fset (client_tasks m) \<union> spawned outs \<subseteq> fset (client_tasks (fmupd a h m)) \<union> aborted outs"
proof -
  have "t |\<in>| client_tasks (fmupd a h m)" if t: "t |\<in>| client_tasks m" for t
  proof -
    from t obtain b g where "fmlookup m b = Some g" "t = h_handler g"
      by (auto simp: mem_client_tasks)
    with assms(1) show ?thesis
      unfolding mem_client_tasks by (intro exI [of _ b] exI [of _ g]) auto
  qed
  moreover have "h_handler h |\<in>| client_tasks (fmupd a h m)"
    by (auto simp: mem_client_tasks)
  ultimately show ?thesis
    using allocate_handler_Inr [OF assms(2)] by auto
qed

lemma changes_tasks:
  assumes "changes al m outs m'"
  shows "fset (client_tasks m) \<union> spawned outs \<subseteq> fset (client_tasks m') \<union> aborted outs"
  using assms
proof cases
  case only_drops
  then show ?thesis by (rule drops_tasks)
next
  case (opens outs1 m1 a peer sock tx al h outs2 outs3)
  from balance_trans [OF drops_tasks [OF opens(3)] balance_trans [OF open_tasks [OF opens(4,5)] drops_tasks [OF opens(6)]]]
  show ?thesis by (simp add: opens(2) image_Un Un_assoc)
qed

section \<open>The system\<close>

text \<open>
  A host as the system sees it: its loop, what it does when it ends and when its task is aborted,
  its client table, the events that are not reports of relays, the relay an event may open, and
  the event of taking a report.
\<close>

record ('s, 'e) host =
  hs_step :: "('s, 'e, udp_effect) loop_step"
  hs_finish :: "'s \<Rightarrow> udp_effect list"
  hs_drop :: "'s \<Rightarrow> udp_effect list"
  hs_clients :: "'s \<Rightarrow> client_table"
  hs_own :: "'e \<Rightarrow> bool"
  hs_alloc :: "'e \<Rightarrow> alloc_io option"
  hs_report :: "SocketAddr \<Rightarrow> (chan_id \<Rightarrow> bool) \<Rightarrow> 'e"

text \<open>
  \<open>y_host\<close> is \<open>None\<close> once the host is gone; \<open>y_reports\<close> holds the addresses of the reports the host
  has not taken yet, which may be taken in any order.
\<close>

record 's relay_sys =
  y_host :: "'s option"
  y_relays :: "(task_id, ProxyClient) fmap"
  y_reports :: "SocketAddr list"

fun apply_effect :: "(task_id, ProxyClient) fmap \<Rightarrow> udp_effect \<Rightarrow> (task_id, ProxyClient) fmap" where
  "apply_effect relays (SpawnRelay t c) = fmupd t c relays"
| "apply_effect relays (AbortRelays ts) = fmfilter (\<lambda>t. t |\<notin>| ts) relays"
| "apply_effect relays _ = relays"

definition apply_effects :: "(task_id, ProxyClient) fmap \<Rightarrow> udp_effect list \<Rightarrow> (task_id, ProxyClient) fmap" where
  "apply_effects relays outs = foldl apply_effect relays outs"

definition chan_closed :: "(task_id, ProxyClient) fmap \<Rightarrow> chan_id \<Rightarrow> bool" where
  "chan_closed relays ch \<longleftrightarrow> (\<forall>t r. fmlookup relays t = Some r \<longrightarrow> c_control r \<noteq> ch)"

fun alloc_fresh :: "client_table \<Rightarrow> (task_id, ProxyClient) fmap \<Rightarrow> alloc_io option \<Rightarrow> bool" where
  "alloc_fresh m relays (Some (Connected sid cid tid)) \<longleftrightarrow>
     fmlookup relays tid = None \<and> chan_closed relays cid \<and>
     (\<forall>a h. fmlookup m a = Some h \<longrightarrow> h_handler h \<noteq> tid \<and> h_sender h \<noteq> cid)"
| "alloc_fresh m relays _ \<longleftrightarrow> True"

text \<open>The next event of the host: one of its own, or a report.\<close>

inductive takes :: "('s, 'e) host \<Rightarrow> 's relay_sys \<Rightarrow> 's \<Rightarrow> 'e \<Rightarrow> SocketAddr list \<Rightarrow> bool" for H y s where
  takes_own: "hs_own H e \<Longrightarrow> alloc_fresh (hs_clients H s) (y_relays y) (hs_alloc H e) \<Longrightarrow>
     takes H y s e (y_reports y)"
| takes_report: "y_reports y = pre @ a # post \<Longrightarrow> e = hs_report H a (chan_closed (y_relays y)) \<Longrightarrow>
     takes H y s e (pre @ post)"

inductive sys_step :: "('s, 'e) host \<Rightarrow> 's relay_sys \<Rightarrow> 's relay_sys \<Rightarrow> bool" for H where
  sys_turn: "y_host y = Some s \<Longrightarrow> takes H y s e reports \<Longrightarrow> hs_step H s e = (s', outs, Continue) \<Longrightarrow>
     sys_step H y \<lparr>y_host = Some s', y_relays = apply_effects (y_relays y) outs, y_reports = reports\<rparr>"
| sys_end: "y_host y = Some s \<Longrightarrow> takes H y s e reports \<Longrightarrow> hs_step H s e = (s', outs, Break) \<Longrightarrow>
     sys_step H y \<lparr>y_host = None, y_relays = apply_effects (y_relays y) (outs @ hs_finish H s'), y_reports = reports\<rparr>"
| sys_abort: "y_host y = Some s \<Longrightarrow>
     sys_step H y \<lparr>y_host = None, y_relays = apply_effects (y_relays y) (hs_drop H s), y_reports = y_reports y\<rparr>"
| sys_relay: "fmlookup (y_relays y) t = Some r \<Longrightarrow> ProxyClient_step r e = (r', outs, Continue) \<Longrightarrow>
     sys_step H y (y\<lparr>y_relays := fmupd t r' (y_relays y)\<rparr>)"
| sys_relay_end: "fmlookup (y_relays y) t = Some r \<Longrightarrow> ProxyClient_step r e = (r', outs, Break) \<Longrightarrow>
     ChanSend (c_msg_tx r') (ClientEnded a) \<in> set (ProxyClient_finish r') \<Longrightarrow>
     sys_step H y (y\<lparr>y_relays := fmdrop t (y_relays y), y_reports := y_reports y @ [a]\<rparr>)"

definition sys_new :: "'s \<Rightarrow> 's relay_sys" where
  "sys_new s = \<lparr>y_host = Some s, y_relays = fmempty, y_reports = []\<rparr>"

inductive sys_reachable :: "('s, 'e) host \<Rightarrow> 's \<Rightarrow> 's relay_sys \<Rightarrow> bool" for H s where
  sys_init: "sys_reachable H s (sys_new s)"
| sys_next: "sys_reachable H s y \<Longrightarrow> sys_step H y y' \<Longrightarrow> sys_reachable H s y'"

section \<open>Effects on the running relays\<close>

lemma apply_effects_simps [simp]:
  "apply_effects relays [] = relays"
  "apply_effects relays (x # outs) = apply_effects (apply_effect relays x) outs"
  "apply_effects relays (outs @ outs') = apply_effects (apply_effects relays outs) outs'"
  by (simp_all add: apply_effects_def)

lemma apply_effects_aborts:
  assumes "spawned outs = {}"
  shows "fmlookup (apply_effects relays outs) t = (if t \<in> aborted outs then None else fmlookup relays t)"
  using assms
proof (induction outs arbitrary: relays)
  case (Cons x outs)
  then have "spawned outs = {}" by simp
  from Cons.IH [OF this] Cons.prems show ?case
    by (cases x) auto
qed simp

lemma apply_effects_drops:
  "drops m outs m' \<Longrightarrow>
     fmlookup (apply_effects relays outs) t = (if t \<in> gone m m' then None else fmlookup relays t)"
  using apply_effects_aborts [of outs relays t] dropsD(2,3) [of m outs m'] by simp

lemma chan_closed_mono:
  "(\<And>t r. fmlookup relays' t = Some r \<Longrightarrow> fmlookup relays t = Some r) \<Longrightarrow>
     chan_closed relays ch \<Longrightarrow> chan_closed relays' ch"
  by (auto simp: chan_closed_def)

lemma chan_closed_drops: "drops m outs m' \<Longrightarrow> chan_closed relays ch \<Longrightarrow> chan_closed (apply_effects relays outs) ch"
  by (erule chan_closed_mono [rotated]) (auto simp: apply_effects_drops split: if_splits)

lemma alloc_fresh_drops:
  assumes "drops m outs m'" "alloc_fresh m relays al"
  shows "alloc_fresh m' (apply_effects relays outs) al"
proof (cases "(m, relays, al)" rule: alloc_fresh.cases)
  case (1 m relays sid cid tid)
  with assms show ?thesis
    using dropsD(1) [OF assms(1)] chan_closed_drops [OF assms(1)]
    by (simp add: apply_effects_drops [OF assms(1)]) blast
qed simp_all

section \<open>Tables and running relays\<close>

text \<open>
  A client and the relay behind it agree; a client whose relay is gone has a report under way; no
  two clients share a channel; every running relay is the one of its client.
\<close>

definition client_ok :: "(task_id, ProxyClient) fmap \<Rightarrow> SocketAddr list \<Rightarrow> SocketAddr \<Rightarrow> ProxyClientHandler \<Rightarrow> bool" where
  "client_ok relays reports a h \<longleftrightarrow>
     (case fmlookup relays (h_handler h) of
        Some r \<Rightarrow> c_control r = h_sender h \<and> c_socket r = h_socket h \<and> c_addr r = a
      | None \<Rightarrow> a \<in> set reports \<and> chan_closed relays (h_sender h))"

definition table_ok :: "client_table \<Rightarrow> (task_id, ProxyClient) fmap \<Rightarrow> SocketAddr list \<Rightarrow> bool" where
  "table_ok m relays reports \<longleftrightarrow>
     (\<forall>a h. fmlookup m a = Some h \<longrightarrow> client_ok relays reports a h) \<and>
     (\<forall>a h b g. fmlookup m a = Some h \<longrightarrow> fmlookup m b = Some g \<longrightarrow> h_sender h = h_sender g \<longrightarrow> a = b) \<and>
     (\<forall>t r. fmlookup relays t = Some r \<longrightarrow> (\<exists>h. fmlookup m (c_addr r) = Some h \<and> h_handler h = t))"

lemma table_okI:
  assumes "\<And>a h. fmlookup m a = Some h \<Longrightarrow> client_ok relays reports a h"
    and "\<And>a h b g. fmlookup m a = Some h \<Longrightarrow> fmlookup m b = Some g \<Longrightarrow> h_sender h = h_sender g \<Longrightarrow> a = b"
    and "\<And>t r. fmlookup relays t = Some r \<Longrightarrow> \<exists>h. fmlookup m (c_addr r) = Some h \<and> h_handler h = t"
  shows "table_ok m relays reports"
  unfolding table_ok_def using assms by meson

lemma table_okD:
  assumes "table_ok m relays reports"
  shows "fmlookup m a = Some h \<Longrightarrow> fmlookup relays (h_handler h) = Some r \<Longrightarrow>
      c_control r = h_sender h \<and> c_socket r = h_socket h \<and> c_addr r = a"
    and "fmlookup m a = Some h \<Longrightarrow> fmlookup relays (h_handler h) = None \<Longrightarrow>
      a \<in> set reports \<and> chan_closed relays (h_sender h)"
    and "fmlookup m a = Some h \<Longrightarrow> fmlookup m b = Some g \<Longrightarrow> h_sender h = h_sender g \<Longrightarrow> a = b"
    and "fmlookup relays t = Some r \<Longrightarrow> \<exists>h. fmlookup m (c_addr r) = Some h \<and> h_handler h = t"
proof -
  show "c_control r = h_sender h \<and> c_socket r = h_socket h \<and> c_addr r = a"
    if "fmlookup m a = Some h" "fmlookup relays (h_handler h) = Some r"
  proof -
    have "client_ok relays reports a h" using assms that(1) by (simp add: table_ok_def)
    with that(2) show ?thesis by (simp add: client_ok_def)
  qed
  show "a \<in> set reports \<and> chan_closed relays (h_sender h)"
    if "fmlookup m a = Some h" "fmlookup relays (h_handler h) = None"
  proof -
    have "client_ok relays reports a h" using assms that(1) by (simp add: table_ok_def)
    with that(2) show ?thesis by (simp add: client_ok_def)
  qed
qed (use assms in \<open>unfold table_ok_def, blast+\<close>)

text \<open>Dropping clients keeps the agreement, as long as no report of the others is lost.\<close>

lemma drops_ok:
  assumes ok: "table_ok m relays reports" and dr: "drops m outs m'"
    and reports: "\<And>a h. fmlookup m' a = Some h \<Longrightarrow> fmlookup relays (h_handler h) = None \<Longrightarrow> a \<in> set reports'"
  shows "table_ok m' (apply_effects relays outs) reports'"
proof (rule table_okI)
  note relays = apply_effects_drops [OF dr, of relays] and sub = dropsD(1) [OF dr]
  show "client_ok (apply_effects relays outs) reports' a h" if h: "fmlookup m' a = Some h" for a h
  proof (cases "fmlookup relays (h_handler h)")
    case None
    with table_okD(2) [OF ok sub [OF h]] have "chan_closed (apply_effects relays outs) (h_sender h)"
      by (simp add: chan_closed_drops [OF dr])
    with None reports [OF h] show ?thesis
      by (simp add: client_ok_def relays)
  next
    case (Some r)
    have "h_handler h \<notin> gone m m'"
    proof
      assume "h_handler h \<in> gone m m'"
      then obtain b g where g: "fmlookup m b = Some g" "fmlookup m' b = None" "h_handler g = h_handler h"
        by (auto simp: gone_def)
      then have "c_addr r = b" "c_addr r = a"
        using table_okD(1) [OF ok g(1), of r] table_okD(1) [OF ok sub [OF h] Some] Some by simp_all
      with h g(2) show False by simp
    qed
    with Some table_okD(1) [OF ok sub [OF h] Some] show ?thesis
      by (simp add: client_ok_def relays)
  qed
  show "\<exists>h. fmlookup m' (c_addr r) = Some h \<and> h_handler h = t"
    if "fmlookup (apply_effects relays outs) t = Some r" for t r
  proof -
    from that have nt: "t \<notin> gone m m'" and rt: "fmlookup relays t = Some r"
      by (auto simp: relays split: if_splits)
    obtain h where h: "fmlookup m (c_addr r) = Some h" "h_handler h = t"
      using table_okD(4) [OF ok rt] by blast
    then obtain g where "fmlookup m' (c_addr r) = Some g"
      using nt goneI [of m "c_addr r" h m'] by (cases "fmlookup m' (c_addr r)") auto
    with sub [OF this] h show ?thesis by simp
  qed
qed (use table_okD(3) [OF ok] dropsD(1) [OF dr] in blast)

lemma drops_ok_same:
  assumes "table_ok m relays reports" "drops m outs m'"
  shows "table_ok m' (apply_effects relays outs) reports"
  using drops_ok [OF assms] table_okD(2) [OF assms(1) dropsD(1) [OF assms(2)]] by blast

lemma open_ok:
  assumes ok: "table_ok m relays reports" and new: "fmlookup m a = None"
    and al: "allocate_handler peer a sock tx al = (Inr h, outs)" and fresh: "alloc_fresh m relays (Some al)"
  shows "table_ok (fmupd a h m) (apply_effects relays outs) reports"
proof -
  obtain sid cid tid where io: "al = Connected sid cid tid"
    using al by (auto simp: allocate_handler_def split: alloc_io.splits)
  define r where "r = \<lparr>c_socket = h_socket h, c_target_socket = sock, c_addr = a, c_msg_tx = tx, c_control = h_sender h\<rparr>"
  have h: "h_handler h = tid" "h_sender h = cid" and rel: "apply_effects relays outs = fmupd tid r relays"
    using al by (auto simp: io r_def allocate_handler_def ProxyClient_new_def Let_def)
  have unused: "fmlookup relays tid = None" "chan_closed relays cid"
    "\<And>b g. fmlookup m b = Some g \<Longrightarrow> h_handler g \<noteq> tid \<and> h_sender g \<noteq> cid"
    using fresh by (auto simp: io)
  show ?thesis
  proof (rule table_okI)
    show "client_ok (apply_effects relays outs) reports b g" if g: "fmlookup (fmupd a h m) b = Some g" for b g
    proof (cases "b = a")
      case True
      with g h show ?thesis by (simp add: client_ok_def rel r_def)
    next
      case False
      with g have g': "fmlookup m b = Some g" by simp
      show ?thesis
        using table_okD(1,2) [OF ok g'] unused(3) [OF g'] h
        by (auto simp: client_ok_def rel r_def chan_closed_def split: option.splits)
    qed
    show "\<exists>g. fmlookup (fmupd a h m) (c_addr q) = Some g \<and> h_handler g = t"
      if "fmlookup (apply_effects relays outs) t = Some q" for t q
      using that table_okD(4) [OF ok, of t q] new h by (auto simp: rel r_def split: if_splits)
  qed (use table_okD(3) [OF ok] unused(3) h in \<open>auto split: if_splits\<close>)
qed

lemma changes_ok:
  assumes "changes al m outs m'" "table_ok m relays reports" "alloc_fresh m relays al"
  shows "table_ok m' (apply_effects relays outs) reports"
  using assms(1)
proof cases
  case only_drops
  then show ?thesis using assms(2) drops_ok_same by blast
next
  case (opens outs1 m1 a peer sock tx al h outs2 outs3)
  note ok1 = drops_ok_same [OF assms(2) opens(3)]
  have "alloc_fresh m1 (apply_effects relays outs1) (Some al)"
    using alloc_fresh_drops [OF opens(3) assms(3)] opens(1) by simp
  from drops_ok_same [OF open_ok [OF ok1 opens(4,5) this] opens(6)] show ?thesis
    by (simp add: opens(2))
qed

text \<open>A relay that ends closes its channel and leaves a report.\<close>

lemma relay_end_ok:
  assumes ok: "table_ok m relays reports" and r: "fmlookup relays t = Some r"
  shows "table_ok m (fmdrop t relays) (reports @ [c_addr r])"
proof (rule table_okI)
  obtain h0 where h0: "fmlookup m (c_addr r) = Some h0" "h_handler h0 = t"
    using table_okD(4) [OF ok r] by blast
  have ctl0: "c_control r = h_sender h0"
    using table_okD(1) [OF ok h0(1), of r] h0(2) r by simp
  have closed: "chan_closed (fmdrop t relays) (c_control r)"
    unfolding chan_closed_def
  proof (intro allI impI notI)
    fix t' q
    assume "fmlookup (fmdrop t relays) t' = Some q" and eq: "c_control q = c_control r"
    then have t': "t' \<noteq> t" "fmlookup relays t' = Some q"
      by (auto split: if_splits)
    obtain h where h: "fmlookup m (c_addr q) = Some h" "h_handler h = t'"
      using table_okD(4) [OF ok t'(2)] by blast
    have "h_sender h = h_sender h0"
      using table_okD(1) [OF ok h(1), of q] h(2) t'(2) eq ctl0 by simp
    then have "c_addr q = c_addr r"
      by (rule table_okD(3) [OF ok h(1) h0(1)])
    with h h0 t'(1) show False by simp
  qed
  show "client_ok (fmdrop t relays) (reports @ [c_addr r]) a h" if h: "fmlookup m a = Some h" for a h
  proof (cases "h_handler h = t")
    case True
    with table_okD(1) [OF ok h, of r] r closed show ?thesis
      by (simp add: client_ok_def)
  next
    case False
    with table_okD(1,2) [OF ok h] show ?thesis
      by (auto simp: client_ok_def chan_closed_def split: option.splits)
  qed
  show "\<exists>h. fmlookup m (c_addr q) = Some h \<and> h_handler h = t'"
    if "fmlookup (fmdrop t relays) t' = Some q" for t' q
    using that table_okD(4) [OF ok, of t' q] by (auto split: if_splits)
qed (use table_okD(3) [OF ok] in simp)

lemma ended_no_relays:
  assumes "table_ok m relays reports" "spawned outs = {}" "fset (client_tasks m) \<subseteq> aborted outs"
  shows "apply_effects relays outs = fmempty"
proof (rule fmap_ext)
  fix t
  show "fmlookup (apply_effects relays outs) t = fmlookup fmempty t"
  proof (cases "fmlookup relays t")
    case (Some r)
    from table_okD(4) [OF assms(1) this] obtain h where "fmlookup m (c_addr r) = Some h" "h_handler h = t"
      by blast
    then have "t |\<in>| client_tasks m" by (auto simp: mem_client_tasks)
    with assms(3) have "t \<in> aborted outs" by (rule subsetD)
    then show ?thesis by (simp add: apply_effects_aborts [OF assms(2)])
  qed (simp add: apply_effects_aborts [OF assms(2)])
qed

section \<open>The contract of a host\<close>

locale relay_host = event_loop "hs_step H" "hs_finish H" inv
  for H :: "('s, 'e) host" and inv :: "'s \<Rightarrow> bool" +
  assumes step_changes: "hs_step H s e = (s', outs, c) \<Longrightarrow> changes (hs_alloc H e) (hs_clients H s) outs (hs_clients H s')"
    and report_allocs: "hs_alloc H (hs_report H a closed) = None"
    and report_kept: "hs_step H s (hs_report H a closed) = (s', outs, c) \<Longrightarrow>
      fmlookup (hs_clients H s') a = Some h \<Longrightarrow> \<not> closed (h_sender h)"
    and finish_aborts: "fset (client_tasks (hs_clients H s)) \<subseteq> aborted (hs_finish H s)" "spawned (hs_finish H s) = {}"
    and drop_aborts: "fset (client_tasks (hs_clients H s)) \<subseteq> aborted (hs_drop H s)" "spawned (hs_drop H s) = {}"

text \<open>Such a host loses track of no relay.\<close>

sublocale relay_host \<subseteq> owner: resource_owner "hs_step H" "\<lambda>s. fset (client_tasks (hs_clients H s))"
  relay_spawned relay_aborted "hs_finish H"
  by unfold_locales (rule changes_tasks [OF step_changes], assumption, rule finish_aborts, rule finish_aborts)

context relay_host begin

definition sys_ok :: "'s relay_sys \<Rightarrow> bool" where
  "sys_ok y \<longleftrightarrow>
     (case y_host y of
        Some s \<Rightarrow> inv s \<and> table_ok (hs_clients H s) (y_relays y) (y_reports y)
      | None \<Rightarrow> y_relays y = fmempty)"

lemma turn_ok:
  assumes ok: "table_ok (hs_clients H s) (y_relays y) (y_reports y)"
    and "takes H y s e reports" and st: "hs_step H s e = (s', outs, c)"
  shows "table_ok (hs_clients H s') (apply_effects (y_relays y) outs) reports"
  using assms(2)
proof cases
  case takes_own
  with changes_ok [OF step_changes [OF st] ok] show ?thesis by simp
next
  case (takes_report pre a post)
  note st' = st [unfolded takes_report(3)]
  have "changes None (hs_clients H s) outs (hs_clients H s')"
    using step_changes [OF st'] report_allocs by simp
  then have "drops (hs_clients H s) outs (hs_clients H s')"
    by cases
  then show ?thesis
  proof (rule drops_ok [OF ok])
    fix b h
    assume h: "fmlookup (hs_clients H s') b = Some h" "fmlookup (y_relays y) (h_handler h) = None"
    with table_okD(2) [OF ok dropsD(1) [OF \<open>drops _ _ _\<close>]]
    have "b \<in> set (y_reports y)" "chan_closed (y_relays y) (h_sender h)" by blast+
    moreover have "b \<noteq> a"
      using report_kept [OF st'] h(1) \<open>chan_closed _ _\<close> by blast
    ultimately show "b \<in> set reports" by (simp add: takes_report(1,2))
  qed
qed

lemma sys_step_ok: "sys_step H y y' \<Longrightarrow> sys_ok y \<Longrightarrow> sys_ok y'"
proof (induction rule: sys_step.induct)
  case (sys_turn y s e reports s' outs)
  then have ok: "inv s" "table_ok (hs_clients H s) (y_relays y) (y_reports y)"
    by (simp_all add: sys_ok_def)
  from step_inv [OF ok(1) sys_turn(3)] turn_ok [OF ok(2) sys_turn(2,3)] show ?case
    by (simp add: sys_ok_def)
next
  case (sys_end y s e reports s' outs)
  then have ok: "table_ok (hs_clients H s) (y_relays y) (y_reports y)"
    by (simp add: sys_ok_def)
  note turn_ok [OF ok sys_end(2,3)]
  from ended_no_relays [OF this finish_aborts(2,1)] show ?case by (simp add: sys_ok_def)
next
  case (sys_abort y s)
  then have "table_ok (hs_clients H s) (y_relays y) (y_reports y)"
    by (simp add: sys_ok_def)
  from ended_no_relays [OF this drop_aborts(2,1)] show ?case by (simp add: sys_ok_def)
next
  case (sys_relay y t r e r' outs)
  then have "fmupd t r' (y_relays y) = y_relays y"
    using relay_step_state by (intro fmap_ext) auto
  with sys_relay show ?case by (simp add: sys_ok_def split: option.splits)
next
  case (sys_relay_end y t r e r' outs a)
  then have "r' = r" using relay_step_state by blast
  with sys_relay_end have "a = c_addr r" by (simp add: ProxyClient_finish_def)
  with sys_relay_end relay_end_ok show ?case by (auto simp: sys_ok_def split: option.splits)
qed

lemma sys_reachable_ok:
  assumes "sys_reachable H s y" "inv s" "hs_clients H s = fmempty"
  shows "sys_ok y"
  using assms(1)
proof (induction rule: sys_reachable.induct)
  case sys_init
  with assms(2,3) show ?case by (simp add: sys_ok_def sys_new_def table_ok_def)
next
  case (sys_next y y')
  then show ?case using sys_step_ok by blast
qed

text \<open>A running relay is registered with its host, which is alive.\<close>

lemma relay_registered:
  assumes "sys_reachable H s0 y" "inv s0" "hs_clients H s0 = fmempty" "fmlookup (y_relays y) t = Some r"
  shows "\<exists>s h. y_host y = Some s \<and> inv s \<and> fmlookup (hs_clients H s) (c_addr r) = Some h \<and>
    h_handler h = t \<and> h_socket h = c_socket r"
proof -
  from sys_reachable_ok [OF assms(1-3)] assms(4) obtain s where s: "y_host y = Some s" "inv s"
    and ok: "table_ok (hs_clients H s) (y_relays y) (y_reports y)"
    by (auto simp: sys_ok_def split: option.splits)
  obtain h where h: "fmlookup (hs_clients H s) (c_addr r) = Some h" "h_handler h = t"
    using table_okD(4) [OF ok assms(4)] by blast
  with table_okD(1) [OF ok h(1), of r] assms(4) s show ?thesis by auto
qed

lemma registered_relay:
  assumes "sys_reachable H s0 y" "inv s0" "hs_clients H s0 = fmempty" "y_host y = Some s"
    and "fmlookup (hs_clients H s) a = Some h" "fmlookup (y_relays y) (h_handler h) = Some r"
  shows "c_control r = h_sender h \<and> c_addr r = a"
proof -
  from sys_reachable_ok [OF assms(1-3)] assms(4) have "table_ok (hs_clients H s) (y_relays y) (y_reports y)"
    by (simp add: sys_ok_def)
  from table_okD(1) [OF this assms(5,6)] show ?thesis by simp
qed

text \<open>When no report is under way, the clients of the host are the running relays.\<close>

lemma quiescent_exact:
  assumes "sys_reachable H s0 y" "inv s0" "hs_clients H s0 = fmempty" "y_host y = Some s" "y_reports y = []"
  shows "client_tasks (hs_clients H s) = fmdom (y_relays y)"
proof -
  from sys_reachable_ok [OF assms(1-3)] assms(4,5) have ok: "table_ok (hs_clients H s) (y_relays y) []"
    by (simp add: sys_ok_def)
  have "t |\<in>| client_tasks (hs_clients H s) \<longleftrightarrow> t |\<in>| fmdom (y_relays y)" for t
  proof
    assume "t |\<in>| client_tasks (hs_clients H s)"
    then obtain a h where "fmlookup (hs_clients H s) a = Some h" "t = h_handler h"
      by (auto simp: mem_client_tasks)
    with table_okD(2) [OF ok] show "t |\<in>| fmdom (y_relays y)"
      by (cases "fmlookup (y_relays y) t") (auto simp: fmlookup_dom_iff)
  next
    assume "t |\<in>| fmdom (y_relays y)"
    with table_okD(4) [OF ok] show "t |\<in>| client_tasks (hs_clients H s)"
      by (fastforce simp: fmlookup_dom_iff mem_client_tasks)
  qed
  then show ?thesis by blast
qed

end

end
