(* ===== verification/Udp_Client.thy ===== *)
theory Udp_Client
  imports Relay_Host
begin

text \<open>
  The per-session UDP path, \<^verbatim>\<open>src/proxy/udp_client.rs\<close>: the endpoint task (\<open>ProxyEndpoint\<close>) that owns
  one inbound socket and one relay per client address, and its handle.
\<close>

section \<open>The endpoint task\<close>

definition ProxyEndpoint_new :: "sock_id \<Rightarrow> Endpoint \<Rightarrow> SocketAddr \<Rightarrow> ProxyEndpoint \<times> udp_effect list" where
  "ProxyEndpoint_new sock ep remote_addr =
     (\<lparr>e_udp_socket = sock, e_endpoint = ep, e_remote_addr = remote_addr, e_clients = fmempty\<rparr>,
      [Incr IN_UDP_SOCKET_COUNTER])"

definition get_or_create_client :: "ProxyEndpoint \<Rightarrow> SocketAddr \<Rightarrow> sock_id \<Rightarrow> chan_id \<Rightarrow> alloc_io
    \<Rightarrow> ProxyClientHandler result \<times> ProxyEndpoint \<times> udp_effect list" where
  "get_or_create_client s addr target_socket sender io =
     (case fmlookup (e_clients s) addr of
        Some h \<Rightarrow> (Inr h, s, [])
      | None \<Rightarrow>
          (case allocate_handler (e_remote_addr s) addr target_socket sender io of
             (Inl e, effs) \<Rightarrow> (Inl e, s, effs)
           | (Inr h, effs) \<Rightarrow> (Inr h, s\<lparr>e_clients := fmupd addr h (e_clients s)\<rparr>, effs)))"

text \<open>\<open>self.clients.remove(&addr)\<close>: the removed handler, if there was one, is dropped.\<close>

definition remove_client :: "ProxyEndpoint \<Rightarrow> SocketAddr \<Rightarrow> ProxyEndpoint \<times> udp_effect list" where
  "remove_client s addr =
     (s\<lparr>e_clients := fmdrop addr (e_clients s)\<rparr>,
      (case fmlookup (e_clients s) addr of None \<Rightarrow> [] | Some h \<Rightarrow> ProxyClientHandler_drop h))"

definition break_if_empty :: "ProxyEndpoint \<Rightarrow> loop_ctl" where
  "break_if_empty s = (if hm_len (e_clients s) = 0 then Break else Continue)"

datatype endpoint_event =
    EpRecv "(u8 list \<times> SocketAddr) result" alloc_io send_io
  | EpClient "ProxyClientMsg option"
  | EpTimeout

text \<open>One turn of the endpoint's \<open>select!\<close>; \<open>msg_tx\<close> is the channel the relays report on.\<close>

fun ProxyEndpoint_step :: "chan_id \<Rightarrow> (ProxyEndpoint, endpoint_event, udp_effect) loop_step" where
  "ProxyEndpoint_step msg_tx s (EpRecv a alloc send) =
     (case a of
        Inl e \<Rightarrow> (s, [], Break)
      | Inr (d, addr) \<Rightarrow>
          (case get_or_create_client s addr (e_udp_socket s) msg_tx alloc of
             (r, s1, effs1) \<Rightarrow>
               (case fix_box r of
                  Inl e \<Rightarrow> (s1, Incr IN_CLIENT_UDP_MESSAGE # effs1, Break)
                | Inr client \<Rightarrow>
                    (case ProxyClient_send (h_socket client) (recv_buf d) (h_sender client) send of
                       (Inr u, effs2) \<Rightarrow>
                         (s1, Incr IN_CLIENT_UDP_MESSAGE # effs1 @ effs2, Continue)
                     | (Inl e, effs2) \<Rightarrow>
                         (case remove_client s1 addr of
                            (s2, effs3) \<Rightarrow>
                              (s2, Incr IN_CLIENT_UDP_MESSAGE # effs1 @ effs2 @ effs3, break_if_empty s2))))))"
| "ProxyEndpoint_step msg_tx s (EpClient b) =
     (case b of
        Some msg \<Rightarrow>
          (case msg of
             ClientEnded addr \<Rightarrow>
               (case remove_client s addr of (s1, effs) \<Rightarrow> (s1, effs, break_if_empty s1))
           | _ \<Rightarrow> (s, [], Break))
      | None \<Rightarrow> (s, [], Break))"
| "ProxyEndpoint_step msg_tx s EpTimeout = (s, [Incr IDLE_IN_UDP_SOCKET], Break)"

text \<open>
  Dropping the endpoint (at the end of \<open>run\<close>, or when its task is aborted) drops its clients.
\<close>

definition ProxyEndpoint_drop :: "ProxyEndpoint \<Rightarrow> udp_effect list" where
  "ProxyEndpoint_drop s = [AbortRelays (client_tasks (e_clients s))]"

definition ProxyEndpoint_finish :: "ProxyEndpoint \<Rightarrow> udp_effect list" where
  "ProxyEndpoint_finish s = ToManager (UdpEndpointEnded (e_endpoint s)) # ProxyEndpoint_drop s"

definition ProxyEndpoint_run :: "chan_id \<Rightarrow> ProxyEndpoint \<Rightarrow> endpoint_event list \<Rightarrow> ProxyEndpoint \<times> udp_effect list \<times> loop_ctl" where
  "ProxyEndpoint_run msg_tx = run_loop (ProxyEndpoint_step msg_tx) ProxyEndpoint_finish"

text \<open>
  \<open>ProxyEndpointHandler::new\<close>: resolve the target, bind an ephemeral port, read it back, start
  the endpoint task.  \<open>Bound\<close> carries the port and the handles of the socket and the task.
\<close>

datatype bind_io = UdpBindErr err | LocalAddrErr err | Bound u16 sock_id task_id

definition ProxyEndpointHandler_new :: "(string \<Rightarrow> u16 \<Rightarrow> SocketAddr list result) \<Rightarrow> Endpoint \<Rightarrow> bind_io
    \<Rightarrow> ProxyEndpointHandler result \<times> udp_effect list" where
  "ProxyEndpointHandler_new resolve ep io =
     (case socket_addr resolve ep of
        Inl e \<Rightarrow> (Inl e, [])
      | Inr remote_addr \<Rightarrow>
          (case io of
             UdpBindErr e \<Rightarrow> (Inl e, [])
           | LocalAddrErr e \<Rightarrow> (Inl e, [])
           | Bound p sid tid \<Rightarrow>
               (case ProxyEndpoint_new sid ep remote_addr of
                  (pr_endpoint, effs) \<Rightarrow>
                    (Inr \<lparr>eh_local_port = p, eh_handle = tid\<rparr>, effs @ [SpawnEndpoint tid pr_endpoint]))))"

definition ProxyEndpointHandler_kill :: "ProxyEndpointHandler \<Rightarrow> udp_effect list" where
  "ProxyEndpointHandler_kill h = [AbortEndpoint (eh_handle h)]"

section \<open>Properties of the endpoint\<close>

text \<open>
  The endpoint's invariant: its target and inbound socket never change, and every relay socket
  is connected to the target.
\<close>

definition endpoint_wf :: "SocketAddr \<Rightarrow> sock_id \<Rightarrow> ProxyEndpoint \<Rightarrow> bool" where
  "endpoint_wf remote sock s \<longleftrightarrow>
     e_remote_addr s = remote \<and> e_udp_socket s = sock \<and>
     fmpred (\<lambda>addr h. us_peer (h_socket h) = remote) (e_clients s)"

text \<open>Looking a client up: a known one, a new one, or an error that changes nothing.\<close>

lemma get_or_create_client_cases:
  assumes "get_or_create_client s addr sock tx io = (r, s', effs)"
  obtains
    (known) h where "fmlookup (e_clients s) addr = Some h" "r = Inr h" "s' = s" "effs = []"
  | (created) h where "fmlookup (e_clients s) addr = None" "r = Inr h"
      "s' = s\<lparr>e_clients := fmupd addr h (e_clients s)\<rparr>"
      "allocate_handler (e_remote_addr s) addr sock tx io = (Inr h, effs)"
  | (failed) e where "fmlookup (e_clients s) addr = None" "r = Inl e" "s' = s" "effs = []"
  using assms
  by (auto simp: get_or_create_client_def split: option.splits prod.splits sum.splits
      dest: allocate_handler_Inl)

lemma get_or_create_client_wf:
  assumes "endpoint_wf remote sock s" "get_or_create_client s addr sock tx io = (r, s', effs)"
  shows "endpoint_wf remote sock s' \<and> list_all (to_target remote sock) effs \<and>
    (\<forall>h. r = Inr h \<longrightarrow> us_peer (h_socket h) = remote)"
  using assms(2)
proof (cases rule: get_or_create_client_cases)
  case known
  with assms(1) show ?thesis
    by (auto simp: endpoint_wf_def)
next
  case (created h)
  with assms(1) allocate_handler_Inr [OF created(4)] show ?thesis
    by (auto simp: endpoint_wf_def)
next
  case failed
  with assms(1) show ?thesis by simp
qed

lemma remove_client_wf:
  assumes "endpoint_wf remote sock s" "remove_client s addr = (s', effs)"
  shows "endpoint_wf remote sock s' \<and> list_all (to_target remote sock) effs"
  using assms
  by (auto simp: remove_client_def endpoint_wf_def ProxyClientHandler_drop_def split: option.splits)

text \<open>What a turn of the loop did, by the branch taken.\<close>

lemma endpoint_step_cases:
  assumes "ProxyEndpoint_step tx s e = (s', outs, ctl)"
  obtains
    (stopped) "s' = s" "ctl = Break" "set outs \<subseteq> {Incr IDLE_IN_UDP_SOCKET}"
  | (no_client) d addr alloc send effs1 err where "e = EpRecv (Inr (d, addr)) alloc send"
      "get_or_create_client s addr (e_udp_socket s) tx alloc = (Inl err, s', effs1)"
      "outs = Incr IN_CLIENT_UDP_MESSAGE # effs1" "ctl = Break"
  | (sent) d addr alloc send h effs1 effs2 where "e = EpRecv (Inr (d, addr)) alloc send"
      "get_or_create_client s addr (e_udp_socket s) tx alloc = (Inr h, s', effs1)"
      "ProxyClient_send (h_socket h) (recv_buf d) (h_sender h) send = (Inr (), effs2)"
      "outs = Incr IN_CLIENT_UDP_MESSAGE # effs1 @ effs2" "ctl = Continue"
  | (send_failed) d addr alloc send h s1 effs1 effs2 effs3 err where "e = EpRecv (Inr (d, addr)) alloc send"
      "get_or_create_client s addr (e_udp_socket s) tx alloc = (Inr h, s1, effs1)"
      "ProxyClient_send (h_socket h) (recv_buf d) (h_sender h) send = (Inl err, effs2)"
      "remove_client s1 addr = (s', effs3)"
      "outs = Incr IN_CLIENT_UDP_MESSAGE # effs1 @ effs2 @ effs3" "ctl = break_if_empty s'"
  | (client_ended) addr where "e = EpClient (Some (ClientEnded addr))"
      "remove_client s addr = (s', outs)" "ctl = break_if_empty s'"
proof (cases e)
  case (EpRecv a alloc send)
  with assms show thesis
    by (auto split: sum.splits prod.splits intro: stopped no_client sent send_failed)
next
  case (EpClient b)
  with assms show thesis
    by (auto split: option.splits ProxyClientMsg.splits prod.splits intro: stopped client_ended)
next
  case EpTimeout
  with assms show thesis
    by (auto intro: stopped)
qed

lemma endpoint_step_wf:
  assumes wf: "endpoint_wf remote sock s" and "ProxyEndpoint_step tx s e = (s', outs, ctl)"
  shows "endpoint_wf remote sock s' \<and> list_all (to_target remote sock) outs"
proof -
  have sock: "e_udp_socket s = sock"
    using wf by (simp add: endpoint_wf_def)
  have fwd: "list_all (to_target remote sock) effs"
    if "ProxyClient_send us d ch io = (q, effs)" "us_peer us = remote" for us d ch io q effs
    using ProxyClient_send_effects [OF that(1)] that(2) by (auto simp: list_all_iff)
  from assms(2) show ?thesis
  proof (cases rule: endpoint_step_cases)
    case stopped
    with wf show ?thesis by (auto simp: list_all_iff)
  next
    case no_client
    with get_or_create_client_wf [OF wf] sock show ?thesis by simp
  next
    case (sent d addr alloc send h effs1 effs2)
    with get_or_create_client_wf [OF wf] sock fwd [OF sent(3)] show ?thesis by simp
  next
    case (send_failed d addr alloc send h s1 effs1 effs2 effs3 err)
    with get_or_create_client_wf [OF wf] sock have "endpoint_wf remote sock s1"
      "list_all (to_target remote sock) effs1" "us_peer (h_socket h) = remote"
      by blast+
    with send_failed fwd [OF send_failed(3)] remove_client_wf show ?thesis by fastforce
  next
    case client_ended
    with remove_client_wf [OF wf] show ?thesis by simp
  qed
qed

text \<open>The endpoint's name never changes, and the loop itself reports nothing.\<close>

lemma endpoint_step_quiet:
  assumes "ProxyEndpoint_step tx s e = (s', outs, ctl)"
  shows "e_endpoint s' = e_endpoint s \<and> list_all (\<lambda>x. \<not> end_report x) outs"
  using assms
  by (cases rule: endpoint_step_cases)
     (auto simp: remove_client_def ProxyClientHandler_drop_def get_or_create_client_def
        allocate_handler_def ProxyClient_new_def ProxyClient_send_def Let_def list_all_iff
      split: option.splits prod.splits sum.splits alloc_io.splits)

interpretation ep_name: event_loop "ProxyEndpoint_step tx" ProxyEndpoint_finish "\<lambda>s. e_endpoint s = ep"
  for tx ep
  by unfold_locales (use endpoint_step_quiet in metis)

section \<open>The endpoint as a host of relays\<close>

lemma remove_client_drops:
  assumes "remove_client s addr = (s', effs)"
  shows "drops (e_clients s) effs (e_clients s')"
proof (cases "fmlookup (e_clients s) addr")
  case None
  with assms show ?thesis by (auto simp: remove_client_def fmdrop_absent intro: drops_refl)
next
  case (Some h)
  with assms drops_one [OF Some] show ?thesis
    by (auto simp: remove_client_def ProxyClientHandler_drop_def)
qed

lemma get_or_create_client_then:
  assumes "get_or_create_client s addr sock tx io = (r, s1, effs)" and "drops (e_clients s1) effs' m"
  shows "changes (Some io) (e_clients s) (effs @ effs') m"
  using assms(1)
proof (cases rule: get_or_create_client_cases)
  case (created h)
  have "drops (e_clients s) [] (e_clients s)" by (simp add: drops_refl)
  moreover have "drops (fmupd addr h (e_clients s)) effs' m" using assms(2) created(3) by simp
  ultimately have "changes (Some io) (e_clients s) ([] @ effs @ effs') m"
    using changes.opens created(1,4) by blast
  then show ?thesis by simp
qed (use assms(2) in \<open>auto intro: only_drops\<close>)

fun ep_own :: "endpoint_event \<Rightarrow> bool" where
  "ep_own (EpClient b) \<longleftrightarrow> False"
| "ep_own _ \<longleftrightarrow> True"

fun ep_alloc :: "endpoint_event \<Rightarrow> alloc_io option" where
  "ep_alloc (EpRecv a alloc send) = Some alloc"
| "ep_alloc _ = None"

lemma endpoint_step_changes:
  assumes "ProxyEndpoint_step tx s e = (s', outs, ctl)"
  shows "changes (ep_alloc e) (e_clients s) outs (e_clients s')"
  using assms
proof (cases rule: endpoint_step_cases)
  case stopped
  then show ?thesis by (intro only_drops drops_refl) auto
next
  case (no_client d addr alloc send effs1 err)
  from get_or_create_client_then [OF no_client(2) drops_refl [OF refl], of "[]"]
    changes_quiet [of "Some alloc" _ _ _ "[Incr IN_CLIENT_UDP_MESSAGE]"] show ?thesis
    by (simp add: no_client(1,3))
next
  case (sent d addr alloc send h effs1 effs2)
  from get_or_create_client_then [OF sent(2) drops_refl [OF refl], of effs2] send_tasks [OF sent(3)]
    changes_quiet [of "Some alloc" _ _ _ "[Incr IN_CLIENT_UDP_MESSAGE]"] show ?thesis
    by (simp add: sent(1,4))
next
  case (send_failed d addr alloc send h s1 effs1 effs2 effs3 err)
  have "drops (e_clients s1) (effs2 @ effs3) (e_clients s')"
    using drops_append [OF drops_refl [OF refl] remove_client_drops [OF send_failed(4)]] send_tasks [OF send_failed(3)]
    by blast
  from get_or_create_client_then [OF send_failed(2) this]
    changes_quiet [of "Some alloc" _ _ _ "[Incr IN_CLIENT_UDP_MESSAGE]"] show ?thesis
    by (simp add: send_failed(1,5))
next
  case (client_ended addr)
  then show ?thesis using remove_client_drops by (intro only_drops)
qed

definition endpoint_host :: "chan_id \<Rightarrow> (ProxyEndpoint, endpoint_event) host" where
  "endpoint_host tx =
     \<lparr>hs_step = ProxyEndpoint_step tx, hs_finish = ProxyEndpoint_finish, hs_drop = ProxyEndpoint_drop,
      hs_clients = e_clients, hs_own = ep_own, hs_alloc = ep_alloc,
      hs_report = (\<lambda>a closed. EpClient (Some (ClientEnded a)))\<rparr>"

lemma endpoint_host_simps [simp]:
  "hs_step (endpoint_host tx) = ProxyEndpoint_step tx"
  "hs_finish (endpoint_host tx) = ProxyEndpoint_finish"
  "hs_drop (endpoint_host tx) = ProxyEndpoint_drop"
  "hs_clients (endpoint_host tx) = e_clients"
  "hs_own (endpoint_host tx) = ep_own"
  "hs_alloc (endpoint_host tx) = ep_alloc"
  "hs_report (endpoint_host tx) a closed = EpClient (Some (ClientEnded a))"
  by (simp_all add: endpoint_host_def)

interpretation ep_host: relay_host "endpoint_host tx" "endpoint_wf remote sock" for tx remote sock
proof (unfold_locales, unfold endpoint_host_simps)
  show "endpoint_wf remote sock s'"
    if "endpoint_wf remote sock s" "ProxyEndpoint_step tx s e = (s', outs, c)" for s e s' outs c
    using endpoint_step_wf [OF that] by blast
  show "\<not> closed (h_sender h)" if "ProxyEndpoint_step tx s (EpClient (Some (ClientEnded a))) = (s', outs, c)"
    "fmlookup (e_clients s') a = Some h" for s a closed s' outs c h
    using that by (auto simp: remove_client_def)
qed (auto simp: ProxyEndpoint_finish_def ProxyEndpoint_drop_def intro: endpoint_step_changes)

section \<open>The endpoint as a whole\<close>

abbreviation fresh_endpoint :: "sock_id \<Rightarrow> Endpoint \<Rightarrow> SocketAddr \<Rightarrow> ProxyEndpoint" where
  "fresh_endpoint sock ep remote \<equiv> fst (ProxyEndpoint_new sock ep remote)"

text \<open>
  Isolation of a session's port: whatever arrives and whatever fails, an endpoint sends
  datagrams to its own target only, and every relay it starts is connected to that target and
  answers through the session's inbound socket.
\<close>

lemma ProxyEndpoint_only_target:
  assumes "ProxyEndpoint_run tx (fresh_endpoint sock ep remote) es = (s, outs, ctl)"
  shows "list_all (to_target remote sock) outs"
proof (rule ep_host.run_outputs [unfolded endpoint_host_simps, OF _ assms [unfolded ProxyEndpoint_run_def]])
  show "endpoint_wf remote sock (fresh_endpoint sock ep remote)"
    by (simp add: endpoint_wf_def ProxyEndpoint_new_def)
  show "list_all (to_target remote sock) os"
    if "endpoint_wf remote sock t" "ProxyEndpoint_step tx t e = (t', os, c)" for t e t' os c
    using endpoint_step_wf [OF that] by blast
  show "list_all (to_target remote sock) (ProxyEndpoint_finish t)" for t
    by (simp add: ProxyEndpoint_finish_def ProxyEndpoint_drop_def)
qed

text \<open>
  No relay leaks: every relay an endpoint ever started is, while the endpoint runs, either
  registered under its client's address or already aborted; once the endpoint has ended (idle,
  socket error, last client gone) every one of them has been aborted.
\<close>

lemma ProxyEndpoint_no_relay_leak:
  assumes "ProxyEndpoint_run tx (fresh_endpoint sock ep remote) es = (s, outs, ctl)"
  shows "spawned outs \<subseteq> (if ctl = Continue then fset (client_tasks (e_clients s)) else {}) \<union> aborted outs"
  using ep_host.owner.run_owned [unfolded endpoint_host_simps, OF assms [unfolded ProxyEndpoint_run_def]] by blast

text \<open>
  C26. The endpoint and its relays together, under any interleaving: a relay runs only while its
  endpoint is alive, is the one registered there for its client, and is connected to the
  endpoint's target; and when no end report is under way, the registered clients are exactly the
  running relays.
\<close>

theorem endpoint_relays_registered:
  assumes "sys_reachable (endpoint_host tx) (fresh_endpoint sock ep remote) y"
  shows "(\<forall>t r. fmlookup (y_relays y) t = Some r \<longrightarrow>
      (\<exists>s h. y_host y = Some s \<and> fmlookup (e_clients s) (c_addr r) = Some h \<and> h_handler h = t \<and>
        us_peer (c_socket r) = remote)) \<and>
    (\<forall>s. y_host y = Some s \<longrightarrow> y_reports y = [] \<longrightarrow> client_tasks (e_clients s) = fmdom (y_relays y))"
proof (intro conjI allI impI)
  have start: "endpoint_wf remote sock (fresh_endpoint sock ep remote)"
    "hs_clients (endpoint_host tx) (fresh_endpoint sock ep remote) = fmempty"
    by (simp_all add: endpoint_wf_def ProxyEndpoint_new_def)
  fix t r
  assume "fmlookup (y_relays y) t = Some r"
  from ep_host.relay_registered [OF assms start this]
  show "\<exists>s h. y_host y = Some s \<and> fmlookup (e_clients s) (c_addr r) = Some h \<and> h_handler h = t \<and>
      us_peer (c_socket r) = remote"
    by (auto simp: endpoint_wf_def)
next
  have start: "endpoint_wf remote sock (fresh_endpoint sock ep remote)"
    "hs_clients (endpoint_host tx) (fresh_endpoint sock ep remote) = fmempty"
    by (simp_all add: endpoint_wf_def ProxyEndpoint_new_def)
  show "client_tasks (e_clients s) = fmdom (y_relays y)" if "y_host y = Some s" "y_reports y = []" for s
    using ep_host.quiescent_exact [OF assms start that] by simp
qed

theorem endpoint_relays_registered_witness:
  "\<exists>y s. sys_reachable (endpoint_host 5) (fresh_endpoint 1 (Endpoint_new 80 ''10.0.0.1'' ''s'') (V4 1 80)) y \<and>
     y_host y = Some s \<and> fmdom (y_relays y) = {|4|} \<and> client_tasks (e_clients s) = {|4|}"
proof -
  let ?H = "endpoint_host 5" and ?s0 = "fresh_endpoint 1 (Endpoint_new 80 ''10.0.0.1'' ''s'') (V4 1 80)"
  let ?e = "EpRecv (Inr ([1], V4 9 9)) (Connected 2 3 4) quiet_send"
  obtain s outs ctl where st: "ProxyEndpoint_step 5 ?s0 ?e = (s, outs, ctl)"
    by (metis prod_cases3)
  define y where "y = \<lparr>y_host = Some s, y_relays = apply_effects (y_relays (sys_new ?s0)) outs, y_reports = []\<rparr>"
  have "takes ?H (sys_new ?s0) ?s0 ?e (y_reports (sys_new ?s0))"
    by (rule takes_own) (simp_all add: sys_new_def ProxyEndpoint_new_def chan_closed_def)
  moreover have "ctl = Continue" and dom: "fmdom (y_relays y) = {|4|}"
    using st by (auto simp: y_def sys_new_def ProxyEndpoint_new_def get_or_create_client_def
        allocate_handler_def ProxyClient_new_def ProxyClient_send_def Let_def)
  ultimately have "sys_step ?H (sys_new ?s0) y"
    using sys_turn [of "sys_new ?s0" ?s0 ?H ?e "y_reports (sys_new ?s0)" s outs] st
    by (simp add: y_def sys_new_def del: ProxyEndpoint_step.simps)
  then have reach: "sys_reachable ?H ?s0 y"
    by (rule sys_next [OF sys_init])
  moreover have "client_tasks (e_clients s) = fmdom (y_relays y)"
    using endpoint_relays_registered [OF reach] by (simp add: y_def)
  ultimately show ?thesis using dom by (auto simp: y_def)
qed

lemma ProxyEndpoint_only_target_witness:
  "\<exists>s outs. ProxyEndpoint_run 5 (fresh_endpoint 1 (Endpoint_new 80 ''10.0.0.1'' ''s'') (V4 1 80))
      [EpRecv (Inr ([1], V4 9 9)) (Connected 2 3 4) quiet_send, EpTimeout] = (s, outs, Break) \<and>
     list_all (to_target (V4 1 80) 1) outs \<and> outs \<noteq> []"
proof -
  let ?s = "fresh_endpoint 1 (Endpoint_new 80 ''10.0.0.1'' ''s'') (V4 1 80)"
  let ?es = "[EpRecv (Inr ([1], V4 9 9)) (Connected 2 3 4) quiet_send, EpTimeout]"
  obtain s outs ctl where run: "ProxyEndpoint_run 5 ?s ?es = (s, outs, ctl)"
    by (metis prod_cases3)
  then have "ctl = Break" "outs \<noteq> []"
    by (auto simp: ProxyEndpoint_run_def ProxyEndpoint_new_def get_or_create_client_def
        allocate_handler_def ProxyClient_new_def ProxyClient_send_def Let_def)
  with run ProxyEndpoint_only_target [OF run] show ?thesis by blast
qed

lemma ProxyEndpoint_no_relay_leak_witness:
  "\<exists>s outs. ProxyEndpoint_run 5 (fresh_endpoint 1 (Endpoint_new 80 ''10.0.0.1'' ''s'') (V4 1 80))
      [EpRecv (Inr ([1], V4 9 9)) (Connected 2 3 4) quiet_send, EpTimeout] = (s, outs, Break) \<and>
     4 \<in> spawned outs \<and> 4 \<in> aborted outs"
proof -
  let ?s = "fresh_endpoint 1 (Endpoint_new 80 ''10.0.0.1'' ''s'') (V4 1 80)"
  let ?es = "[EpRecv (Inr ([1], V4 9 9)) (Connected 2 3 4) quiet_send, EpTimeout]"
  obtain s outs ctl where run: "ProxyEndpoint_run 5 ?s ?es = (s, outs, ctl)"
    by (metis prod_cases3)
  then have "ctl = Break" "4 \<in> spawned outs"
    by (auto simp: ProxyEndpoint_run_def ProxyEndpoint_new_def get_or_create_client_def
        allocate_handler_def ProxyClient_new_def ProxyClient_send_def Let_def)
  with run ProxyEndpoint_no_relay_leak [OF run] show ?thesis by auto
qed

text \<open>
  End of a session's endpoint: it tells the manager that it ended exactly once, after
  everything else but dropping its relays, and a running endpoint has told it nothing.
\<close>

lemma ProxyEndpoint_reports_end:
  assumes "ProxyEndpoint_run tx (fresh_endpoint sock ep remote) es = (s, outs, ctl)"
  shows "\<exists>outs0. list_all (\<lambda>x. \<not> end_report x) outs0 \<and>
    outs = outs0 @ (if ctl = Break
      then [ToManager (UdpEndpointEnded ep), AbortRelays (client_tasks (e_clients s))] else [])"
proof -
  have start: "e_endpoint (fresh_endpoint sock ep remote) = ep"
    by (simp add: ProxyEndpoint_new_def)
  note run = assms [unfolded ProxyEndpoint_run_def]
  have "e_endpoint s = ep"
    by (rule ep_name.run_inv [OF start run])
  moreover have "\<exists>outs0. list_all (\<lambda>x. \<not> end_report x) outs0 \<and>
      outs = outs0 @ (if ctl = Break then ProxyEndpoint_finish s else [])"
    using endpoint_step_quiet by (intro ep_name.run_epilogue [OF start run]) blast
  ultimately show ?thesis
    by (simp only: ProxyEndpoint_finish_def ProxyEndpoint_drop_def)
qed

lemma ProxyEndpoint_reports_end_witness:
  "\<exists>s outs outs0. ProxyEndpoint_run 5 (fresh_endpoint 1 (Endpoint_new 80 ''h'' ''s'') (V4 1 80)) [EpTimeout]
      = (s, outs, Break) \<and>
     outs = outs0 @ [ToManager (UdpEndpointEnded (Endpoint_new 80 ''h'' ''s'')),
       AbortRelays (client_tasks (e_clients s))]"
proof -
  let ?s = "fresh_endpoint 1 (Endpoint_new 80 ''h'' ''s'') (V4 1 80)"
  obtain s outs ctl where run: "ProxyEndpoint_run 5 ?s [EpTimeout] = (s, outs, ctl)"
    by (metis prod_cases3)
  then have "ctl = Break"
    by (auto simp: ProxyEndpoint_run_def)
  with run ProxyEndpoint_reports_end [OF run] show ?thesis by auto
qed

section \<open>The path of the clients' datagrams\<close>

lemma allocate_handler_quiet: "allocate_handler peer addr sock tx al = (r, effs) \<Longrightarrow> sent_to_targets effs = []"
  by (auto simp: allocate_handler_def ProxyClient_new_def Let_def split: alloc_io.splits)

lemma endpoint_datagram_sent:
  assumes "endpoint_wf remote sock s"
  shows "\<exists>s' outs. ProxyEndpoint_step tx s (EpRecv (Inr (m, addr)) (Connected sid cid tid) quiet_send) = (s', outs, Continue) \<and>
    to_peers outs = [(remote, recv_buf m)]"
proof -
  obtain r s1 effs where goc: "get_or_create_client s addr (e_udp_socket s) tx (Connected sid cid tid) = (r, s1, effs)"
    by (metis prod_cases3)
  from goc obtain h where h: "r = Inr h" "sent_to_targets effs = []"
  proof (cases rule: get_or_create_client_cases)
    case (created h)
    with allocate_handler_quiet that show thesis by blast
  next
    case failed
    with goc show thesis by (auto simp: get_or_create_client_def allocate_handler_def Let_def split: prod.splits)
  qed simp
  have "us_peer (h_socket h) = remote"
    using get_or_create_client_wf [OF assms, of addr tx "Connected sid cid tid" r s1 effs] goc h(1) assms
    by (auto simp: endpoint_wf_def)
  with goc h show ?thesis by (simp add: ProxyClient_send_def)
qed

text \<open>
  Whatever has happened to an endpoint, as long as it has not ended the next datagram goes to the
  session's target, once, if a socket can be opened and written to; when it has ended, the manager
  has been told.
\<close>

lemma endpoint_serves:
  assumes "ProxyEndpoint_run tx (fresh_endpoint sock ep remote) es = (s, outs, ctl)"
  shows "if ctl = Continue
    then \<exists>s' outs'. ProxyEndpoint_step tx s (EpRecv (Inr (m, addr)) (Connected sid cid tid) quiet_send) = (s', outs', Continue) \<and>
      to_peers outs' = [(remote, recv_buf m)]
    else ToManager (UdpEndpointEnded ep) \<in> set outs"
proof (cases ctl)
  case Continue
  have "endpoint_wf remote sock s"
  proof (rule ep_host.run_inv [unfolded endpoint_host_simps, OF _ assms [unfolded ProxyEndpoint_run_def]])
    show "endpoint_wf remote sock (fresh_endpoint sock ep remote)"
      by (simp add: endpoint_wf_def ProxyEndpoint_new_def)
  qed
  from endpoint_datagram_sent [OF this] Continue show ?thesis by simp
next
  case Break
  with ProxyEndpoint_reports_end [OF assms] show ?thesis by auto
qed

section \<open>A stale end report\<close>

lemmas endpoint_eval = ProxyEndpoint_run_def ProxyEndpoint_new_def get_or_create_client_def
  allocate_handler_def ProxyClient_new_def ProxyClient_send_def remove_client_def
  ProxyClientHandler_drop_def break_if_empty_def Let_def

abbreviation closed_send :: send_io where
  "closed_send \<equiv> \<lparr>io_socket_err = None, io_sender_err = Some ''channel closed''\<rparr>"

text \<open>
  C34. The endpoint removes a client on \<open>ClientEnded\<close> without asking whether the report came from the
  relay registered now: whenever a report for an address is under way while that client has a
  running relay, whose channel is open, taking this report drops the client and aborts that relay.
  (The pooled socket checks for this case.)
\<close>

theorem stale_report_aborts_newer_relay:
  assumes "sys_reachable (endpoint_host tx) (fresh_endpoint sock ep remote) y" and "y_host y = Some s"
    and "y_reports y = pre @ a # post" and "fmlookup (e_clients s) a = Some h"
    and "fmlookup (y_relays y) (h_handler h) = Some r"
  shows "\<not> chan_closed (y_relays y) (h_sender h) \<and>
    (\<exists>s' ctl. ProxyEndpoint_step tx s (EpClient (Some (ClientEnded a))) = (s', [AbortRelays {|h_handler h|}], ctl) \<and>
      fmlookup (e_clients s') a = None) \<and>
    (\<exists>y'. sys_step (endpoint_host tx) y y' \<and> y_reports y' = pre @ post \<and>
      fmlookup (y_relays y') (h_handler h) = None \<and> (\<forall>s'. y_host y' = Some s' \<longrightarrow> fmlookup (e_clients s') a = None))"
proof -
  let ?s = "s\<lparr>e_clients := fmdrop a (e_clients s)\<rparr>" and ?e = "EpClient (Some (ClientEnded a))"
  have start: "endpoint_wf remote sock (fresh_endpoint sock ep remote)"
    "hs_clients (endpoint_host tx) (fresh_endpoint sock ep remote) = fmempty"
    by (simp_all add: endpoint_wf_def ProxyEndpoint_new_def)
  have "c_control r = h_sender h"
    using ep_host.registered_relay [OF assms(1) start assms(2), of a h r] assms(4,5) by simp
  then have "\<not> chan_closed (y_relays y) (h_sender h)"
    using assms(5) by (auto simp: chan_closed_def)
  moreover have step: "ProxyEndpoint_step tx s ?e = (?s, [AbortRelays {|h_handler h|}], break_if_empty ?s)"
    using assms(4) by (simp add: remove_client_def ProxyClientHandler_drop_def)
  moreover have take: "takes (endpoint_host tx) y s ?e (pre @ post)"
    by (rule takes_report [OF assms(3)]) simp
  have st: "hs_step (endpoint_host tx) s ?e = (?s, [AbortRelays {|h_handler h|}], break_if_empty ?s)"
    using step by (simp only: endpoint_host_simps)
  have "\<exists>y'. sys_step (endpoint_host tx) y y' \<and> y_reports y' = pre @ post \<and>
      fmlookup (y_relays y') (h_handler h) = None \<and> (\<forall>s'. y_host y' = Some s' \<longrightarrow> fmlookup (e_clients s') a = None)"
  proof (cases "break_if_empty ?s")
    case Continue
    from sys_turn [OF assms(2) take st [unfolded Continue]] show ?thesis by (intro exI conjI, assumption) simp_all
  next
    case Break
    from sys_end [OF assms(2) take st [unfolded Break]] show ?thesis
      by (intro exI conjI, assumption) (simp_all add: ProxyEndpoint_finish_def ProxyEndpoint_drop_def)
  qed
  ultimately show ?thesis by (auto simp del: ProxyEndpoint_step.simps)
qed

text \<open>
  Such a state is reachable: relay 21 of client 1:1000 ends and its report is queued; a datagram of
  the client finds its channel closed and removes it, the next one starts relay 23.
\<close>

lemma endpoint_turn_reachable:
  assumes "sys_reachable (endpoint_host tx) s0 \<lparr>y_host = Some s, y_relays = relays, y_reports = reports\<rparr>"
    and "ep_own e" "alloc_fresh (e_clients s) relays (ep_alloc e)" "ProxyEndpoint_step tx s e = (s', outs, Continue)"
    and "relays' = apply_effects relays outs"
  shows "sys_reachable (endpoint_host tx) s0 \<lparr>y_host = Some s', y_relays = relays', y_reports = reports\<rparr>"
  using assms sys_turn [of "\<lparr>y_host = Some s, y_relays = relays, y_reports = reports\<rparr>" s "endpoint_host tx" e reports s' outs]
    takes_own [of "endpoint_host tx" e s "\<lparr>y_host = Some s, y_relays = relays, y_reports = reports\<rparr>"]
  by (auto intro: sys_next)

abbreviation demo_handler :: "sock_id \<Rightarrow> chan_id \<Rightarrow> task_id \<Rightarrow> ProxyClientHandler" where
  "demo_handler sid cid tid \<equiv> \<lparr>h_socket = \<lparr>us_id = sid, us_peer = V4 9 80\<rparr>, h_sender = cid, h_handler = tid\<rparr>"

abbreviation demo_relay :: "sock_id \<Rightarrow> chan_id \<Rightarrow> SocketAddr \<Rightarrow> ProxyClient" where
  "demo_relay sid cid a \<equiv> \<lparr>c_socket = \<lparr>us_id = sid, us_peer = V4 9 80\<rparr>, c_target_socket = 1, c_addr = a,
     c_msg_tx = 5, c_control = cid\<rparr>"

lemma demo_stale_reachable:
  "sys_reachable (endpoint_host 5) (fresh_endpoint 1 (Endpoint_new 80 ''h'' ''s'') (V4 9 80))
     \<lparr>y_host = Some ((fresh_endpoint 1 (Endpoint_new 80 ''h'' ''s'') (V4 9 80))
        \<lparr>e_clients := fmupd (V4 1 1000) (demo_handler 33 43 23) (fmupd (V4 2 2000) (demo_handler 32 42 22) fmempty)\<rparr>),
      y_relays = fmupd 23 (demo_relay 33 43 (V4 1 1000)) (fmupd 22 (demo_relay 32 42 (V4 2 2000)) fmempty),
      y_reports = [V4 1 1000]\<rparr>"
proof -
  let ?s0 = "fresh_endpoint 1 (Endpoint_new 80 ''h'' ''s'') (V4 9 80)" and ?a = "V4 1 1000" and ?b = "V4 2 2000"
  let ?sys = "\<lambda>m relays reports. \<lparr>y_host = Some (?s0\<lparr>e_clients := m\<rparr>), y_relays = relays, y_reports = reports\<rparr>"
  let ?reach = "sys_reachable (endpoint_host 5) ?s0"
  let ?mb = "fmupd ?b (demo_handler 32 42 22) fmempty" and ?rb = "fmupd 22 (demo_relay 32 42 ?b) fmempty"
  have "?reach (?sys fmempty fmempty [])"
    using sys_init [of "endpoint_host 5" ?s0] by (simp add: sys_new_def ProxyEndpoint_new_def)
  then have "?reach (?sys ?mb ?rb [])"
    by (rule endpoint_turn_reachable [where e = "EpRecv (Inr ([2], ?b)) (Connected 32 42 22) quiet_send"])
       (simp add: endpoint_eval chan_closed_def hash_map)+
  then have "?reach (?sys (fmupd ?a (demo_handler 31 41 21) ?mb) (fmupd 21 (demo_relay 31 41 ?a) ?rb) [])"
    by (rule endpoint_turn_reachable [where e = "EpRecv (Inr ([1], ?a)) (Connected 31 41 21) quiet_send"])
       (simp add: endpoint_eval chan_closed_def hash_map)+
  from sys_next [OF this sys_relay_end [where t = 21 and e = RelayTimeout and a = ?a
      and r = "demo_relay 31 41 ?a" and r' = "demo_relay 31 41 ?a"]]
  have "?reach (?sys (fmupd ?a (demo_handler 31 41 21) ?mb) ?rb [?a])"
    by (simp add: ProxyClient_finish_def fmdrop_fmupd_if fmdrop_absent)
  then have "?reach (?sys ?mb ?rb [?a])"
    by (rule endpoint_turn_reachable [where e = "EpRecv (Inr ([3], ?a)) (BindErr []) closed_send"])
       (simp add: endpoint_eval chan_closed_def hash_map)+
  then show ?thesis
    by (rule endpoint_turn_reachable [where e = "EpRecv (Inr ([4], ?a)) (Connected 33 43 23) quiet_send"])
       (simp add: endpoint_eval chan_closed_def hash_map)+
qed

theorem stale_report_aborts_newer_relay_witness:
  "\<exists>y y'. sys_reachable (endpoint_host 5) (fresh_endpoint 1 (Endpoint_new 80 ''h'' ''s'') (V4 9 80)) y \<and>
     sys_step (endpoint_host 5) y y' \<and> fmdom (y_relays y) = {|23, 22|} \<and> y_reports y = [V4 1 1000] \<and>
     y_reports y' = [] \<and> fmlookup (y_relays y') 23 = None"
proof -
  obtain y where y: "sys_reachable (endpoint_host 5) (fresh_endpoint 1 (Endpoint_new 80 ''h'' ''s'') (V4 9 80)) y"
    "\<exists>s. y_host y = Some s \<and> fmlookup (e_clients s) (V4 1 1000) = Some (demo_handler 33 43 23)"
    "y_reports y = [] @ V4 1 1000 # []" "fmlookup (y_relays y) 23 = Some (demo_relay 33 43 (V4 1 1000))"
    "fmdom (y_relays y) = {|23, 22|}"
    using demo_stale_reachable by fastforce
  then obtain s where "y_host y = Some s" "fmlookup (e_clients s) (V4 1 1000) = Some (demo_handler 33 43 23)" by blast
  from stale_report_aborts_newer_relay [OF y(1) this(1) y(3) this(2), of "demo_relay 33 43 (V4 1 1000)"] y
  show ?thesis by auto
qed

end
