(* ===== verification/Route_Table.thy ===== *)
theory Route_Table
  imports Prelude
begin

text \<open>
  The interface between the manager and a pooled socket: a table in which sessions name a key (the
  ufrag) and keys in use have a target.  The locale \<open>route_table\<close> states the laws of adding a route
  and removing a session; its lemmas give the consequences a client of the table relies on, and
  show that a table is determined by the history of operations: \<open>session_log\<close>, \<open>target_log\<close> and
  \<open>route_log\<close> are the abstract specification.
\<close>

datatype ('i, 'u, 't) route_op = Add 'i 'u 't | Remove 'i

section \<open>Specification by history\<close>

text \<open>Which key each session named last, and which target each key was given last.\<close>

fun log_session :: "('i \<rightharpoonup> 'u) \<Rightarrow> ('i, 'u, 't) route_op \<Rightarrow> ('i \<rightharpoonup> 'u)" where
  "log_session m (Add i u t) = m(i \<mapsto> u)"
| "log_session m (Remove i) = m(i := None)"

fun log_target :: "('u \<rightharpoonup> 't) \<Rightarrow> ('i, 'u, 't) route_op \<Rightarrow> ('u \<rightharpoonup> 't)" where
  "log_target m (Add i u t) = m(u \<mapsto> t)"
| "log_target m (Remove i) = m"

definition session_log :: "('i, 'u, 't) route_op list \<Rightarrow> 'i \<rightharpoonup> 'u" where
  "session_log ops = foldl log_session Map.empty ops"

definition target_log :: "('i, 'u, 't) route_op list \<Rightarrow> 'u \<rightharpoonup> 't" where
  "target_log ops = foldl log_target Map.empty ops"

text \<open>A key has a route exactly while a session names it; the target is the one given last.\<close>

definition route_log :: "('i, 'u, 't) route_op list \<Rightarrow> 'u \<rightharpoonup> 't" where
  "route_log ops u = (if u \<in> ran (session_log ops) then target_log ops u else None)"

lemma session_log_simps [simp]:
  "session_log [] = Map.empty"
  "session_log (ops @ [op]) = log_session (session_log ops) op"
  by (simp_all add: session_log_def)

lemma target_log_simps [simp]:
  "target_log [] = Map.empty"
  "target_log (ops @ [op]) = log_target (target_log ops) op"
  by (simp_all add: target_log_def)

text \<open>A key some session names has been given a target.\<close>

lemma session_log_target: "session_log ops i = Some u \<Longrightarrow> \<exists>t. target_log ops u = Some t"
proof (induction ops arbitrary: i rule: rev_induct)
  case (snoc op ops)
  then show ?case by (cases op) (auto split: if_splits)
qed simp

section \<open>The interface\<close>

locale route_table =
  fixes inv :: "'s \<Rightarrow> bool"
    and session_key :: "'s \<Rightarrow> 'i \<rightharpoonup> 'u"
    and route :: "'s \<Rightarrow> 'u \<rightharpoonup> 't"
    and add :: "'s \<Rightarrow> 'i \<Rightarrow> 'u \<Rightarrow> 't \<Rightarrow> 's"
    and remove :: "'s \<Rightarrow> 'i \<Rightarrow> 's"
  assumes inv_add: "inv s \<Longrightarrow> inv (add s i u t)"
    and inv_remove: "inv s \<Longrightarrow> inv (remove s i)"
    and routed: "inv s \<Longrightarrow> dom (route s) = ran (session_key s)"
    and session_add: "session_key (add s i u t) = (session_key s)(i \<mapsto> u)"
    and session_remove: "session_key (remove s i) = (session_key s)(i := None)"
    and route_add: "inv s \<Longrightarrow> v \<in> ran (session_key (add s i u t)) \<Longrightarrow>
          route (add s i u t) v = (if v = u then Some t else route s v)"
    and route_remove: "inv s \<Longrightarrow> v \<in> ran (session_key (remove s i)) \<Longrightarrow> route (remove s i) v = route s v"
begin

definition session_target :: "'s \<Rightarrow> 'i \<rightharpoonup> 't" where
  "session_target s i = Option.bind (session_key s i) (route s)"

lemma session_routed: "inv s \<Longrightarrow> session_key s i = Some u \<Longrightarrow> \<exists>t. route s u = Some t"
  using routed [of s] by (auto simp: ran_def dom_def)

lemma route_used: "inv s \<Longrightarrow> route s u = Some t \<Longrightarrow> \<exists>i. session_key s i = Some u"
  using routed [of s] by (auto simp: ran_def dom_def)

lemma unused_unrouted: "inv s \<Longrightarrow> u \<notin> ran (session_key s) \<Longrightarrow> route s u = None"
  using routed [of s] by (auto simp: dom_def)

lemma target_after_add: "inv s \<Longrightarrow> session_target (add s i u t) i = Some t"
  by (simp add: session_target_def session_add) (subst route_add, auto simp: session_add ran_def)

lemma target_after_remove: "session_target (remove s i) i = None"
  by (simp add: session_target_def session_remove)

lemma other_after_add:
  assumes "inv s" "j \<noteq> i" "session_key s j \<noteq> Some u"
  shows "session_target (add s i u t) j = session_target s j"
proof (cases "session_key s j")
  case (Some v)
  moreover from this have "v \<in> ran (session_key (add s i u t))"
    using assms(2) by (auto simp: session_add intro: ranI)
  ultimately show ?thesis
    using assms by (simp add: session_target_def session_add route_add)
qed (use assms in \<open>simp add: session_target_def session_add\<close>)

lemma other_after_remove:
  assumes "inv s" "j \<noteq> i"
  shows "session_target (remove s i) j = session_target s j"
proof (cases "session_key s j")
  case (Some v)
  moreover from this have "v \<in> ran (session_key (remove s i))"
    using assms(2) by (auto simp: session_remove intro: ranI)
  ultimately show ?thesis
    using assms by (simp add: session_target_def session_remove route_remove)
qed (use assms in \<open>simp add: session_target_def session_remove\<close>)

text \<open>Adding and removing a fresh session under a fresh key leaves the table as it was.\<close>

lemma add_remove:
  assumes "inv s" "session_key s i = None" "u \<notin> ran (session_key s)"
  shows "session_key (remove (add s i u t) i) = session_key s"
    and "route (remove (add s i u t) i) = route s"
proof -
  show key: "session_key (remove (add s i u t) i) = session_key s"
    using assms(2) by (auto simp: session_add session_remove)
  show "route (remove (add s i u t) i) = route s"
  proof
    fix v
    show "route (remove (add s i u t) i) v = route s v"
    proof (cases "v \<in> ran (session_key s)")
      case True
      moreover from this assms(2,3) have "v \<in> ran (session_key (add s i u t))" "v \<noteq> u"
        by (auto simp: session_add)
      ultimately show ?thesis
        using assms(1) key by (simp add: route_remove inv_add route_add)
    next
      case False
      with assms(1) key show ?thesis
        by (simp add: unused_unrouted inv_add inv_remove)
    qed
  qed
qed

section \<open>Refinement of the history\<close>

definition implements :: "('i, 'u, 't) route_op list \<Rightarrow> 's \<Rightarrow> bool" where
  "implements ops s \<longleftrightarrow> inv s \<and> session_key s = session_log ops \<and> route s = route_log ops"

lemma implements_new: "inv s \<Longrightarrow> session_key s = Map.empty \<Longrightarrow> implements [] s"
  by (auto simp: implements_def route_log_def unused_unrouted)

lemma implements_add:
  assumes "implements ops s"
  shows "implements (ops @ [Add i u t]) (add s i u t)"
proof -
  have s: "inv s" "session_key s = session_log ops" "route s = route_log ops"
    using assms by (simp_all add: implements_def)
  have key: "session_key (add s i u t) = session_log (ops @ [Add i u t])"
    by (simp add: session_add s(2))
  moreover have "route (add s i u t) v = route_log (ops @ [Add i u t]) v" for v
  proof (cases "v \<in> ran (session_key (add s i u t))")
    case True
    moreover have "v \<noteq> u \<Longrightarrow> v \<in> ran (session_log ops)"
      using True by (auto simp: session_add s(2) ran_def split: if_splits)
    ultimately show ?thesis
      using s key by (auto simp: route_add route_log_def)
  next
    case False
    with s(1) key show ?thesis
      by (simp add: unused_unrouted inv_add route_log_def)
  qed
  ultimately show ?thesis
    using s(1) by (auto simp: implements_def inv_add)
qed

lemma implements_remove:
  assumes "implements ops s"
  shows "implements (ops @ [Remove i]) (remove s i)"
proof -
  have s: "inv s" "session_key s = session_log ops" "route s = route_log ops"
    using assms by (simp_all add: implements_def)
  have key: "session_key (remove s i) = session_log (ops @ [Remove i])"
    by (simp add: session_remove s(2))
  moreover have "route (remove s i) v = route_log (ops @ [Remove i]) v" for v
  proof (cases "v \<in> ran (session_key (remove s i))")
    case True
    moreover have "v \<in> ran (session_log ops)"
      using True by (auto simp: session_remove s(2) ran_def split: if_splits)
    ultimately show ?thesis
      using s key by (auto simp: route_remove route_log_def)
  next
    case False
    with s(1) key show ?thesis
      by (simp add: unused_unrouted inv_remove route_log_def)
  qed
  ultimately show ?thesis
    using s(1) by (auto simp: implements_def inv_remove)
qed

end

end
