(* ===== verification/Udp_Pooled.thy ===== *)
theory Udp_Pooled
  imports Stun Udp_Client Route_Table
begin

text \<open>
  The pooled UDP sockets, \<^verbatim>\<open>src/proxy/udp_pooled.rs\<close>: one inbound socket shared by many sessions.
  A route maps an ICE ufrag to a target, a session names its ufrag, and a client address that has
  shown a routed ufrag gets a relay to the target.  The theory models the task with all its
  handlers and the handle the manager holds, proves the routing invariant for every reachable
  state, relates the route table to an abstract history of the control messages, and derives
  isolation between sessions and the life cycle of relays.
\<close>

section \<open>State and messages\<close>

datatype PooledUdpMsg =
    AddRoute string string SocketAddr oneshot_id
  | RemoveSession string oneshot_id

record PooledClient =
  p_handler :: ProxyClientHandler
  p_ufrag :: string

record PooledUdpEndpoint =
  u_udp_socket :: sock_id
  u_routes :: "(string, SocketAddr) fmap"
  u_sessions :: "(string, string) fmap"
  u_clients :: "(SocketAddr, PooledClient) fmap"

definition PooledUdpEndpoint_new :: "sock_id \<Rightarrow> PooledUdpEndpoint \<times> udp_effect list" where
  "PooledUdpEndpoint_new sock =
     (\<lparr>u_udp_socket = sock, u_routes = fmempty, u_sessions = fmempty, u_clients = fmempty\<rparr>,
      [Incr IN_UDP_SOCKET_COUNTER])"

definition pooled_tasks :: "(SocketAddr, PooledClient) fmap \<Rightarrow> task_id fset" where
  "pooled_tasks m = (\<lambda>c. h_handler (p_handler c)) |`| fmran m"

section \<open>Control messages\<close>

text \<open>\<open>clients.retain\<close> drops the handlers it throws out, which aborts their relays.\<close>

definition drop_clients :: "PooledUdpEndpoint \<Rightarrow> string \<Rightarrow> PooledUdpEndpoint \<times> udp_effect list" where
  "drop_clients s ufrag =
     (s\<lparr>u_clients := hm_retain (\<lambda>_ client. p_ufrag client \<noteq> ufrag) (u_clients s)\<rparr>,
      [AbortRelays (pooled_tasks (hm_retain (\<lambda>_ client. p_ufrag client = ufrag) (u_clients s)))])"

definition forget_ufrag_if_unused :: "PooledUdpEndpoint \<Rightarrow> string \<Rightarrow> PooledUdpEndpoint \<times> udp_effect list" where
  "forget_ufrag_if_unused s ufrag =
     (if \<not> hm_any_value (u_sessions s) ufrag
      then drop_clients (s\<lparr>u_routes := fmdrop ufrag (u_routes s)\<rparr>) ufrag
      else (s, []))"

text \<open>
  \<open>on_control\<close>.  The code interns the ufrag (\<open>Arc<str>\<close>): it reuses the key of an existing route,
  which has the same content.
\<close>

fun on_control :: "PooledUdpEndpoint \<Rightarrow> PooledUdpMsg \<Rightarrow> PooledUdpEndpoint \<times> udp_effect list" where
  "on_control s (AddRoute session_id ufrag target respond_to) =
     (let rerouted = fmlookup (u_routes s) ufrag;
          s1 = s\<lparr>u_routes := fmupd ufrag target (u_routes s)\<rparr>;
          (s2, effs1) =
            (case rerouted of
               Some previous \<Rightarrow> if previous \<noteq> target then drop_clients s1 ufrag else (s1, [])
             | None \<Rightarrow> (s1, []));
          replaced = fmlookup (u_sessions s2) session_id;
          s3 = s2\<lparr>u_sessions := fmupd session_id ufrag (u_sessions s2)\<rparr>;
          (s4, effs2) =
            (case replaced of
               Some previous \<Rightarrow> if previous \<noteq> ufrag then forget_ufrag_if_unused s3 previous else (s3, [])
             | None \<Rightarrow> (s3, []))
      in (s4, effs1 @ effs2 @ [RespondAdded respond_to]))"
| "on_control s (RemoveSession session_id respond_to) =
     (case fmlookup (u_sessions s) session_id of
        Some ufrag \<Rightarrow>
          (case forget_ufrag_if_unused (s\<lparr>u_sessions := fmdrop session_id (u_sessions s)\<rparr>) ufrag of
             (s1, effs) \<Rightarrow> (s1, effs @ [RespondFound respond_to True]))
      | None \<Rightarrow> (s, [RespondFound respond_to False]))"

section \<open>Datagrams\<close>

text \<open>The route of a datagram: \<open>stun::local_ufrag(data)\<close> looked up in \<open>routes\<close>.\<close>

definition datagram_route :: "PooledUdpEndpoint \<Rightarrow> u8 list \<Rightarrow> (string \<times> SocketAddr) option exec" where
  "datagram_route s data =
     exec_bind (local_ufrag data) (\<lambda>r.
       Ret (case r of
              None \<Rightarrow> None
            | Some ufrag \<Rightarrow> map_option (\<lambda>target. (ufrag, target)) (fmlookup (u_routes s) ufrag)))"

text \<open>
  The part of \<open>on_datagram\<close> for an address without a live relay: find the route or count and drop
  the datagram, allocate a relay, forward, and register the client only if that worked; otherwise
  the new handler is dropped again.
\<close>

definition route_afresh :: "PooledUdpEndpoint \<Rightarrow> u8 list \<Rightarrow> SocketAddr \<Rightarrow> chan_id \<Rightarrow> alloc_io \<Rightarrow> send_io
    \<Rightarrow> (PooledUdpEndpoint \<times> udp_effect list) exec" where
  "route_afresh s data addr client_tx alloc send =
     exec_bind (datagram_route s data) (\<lambda>route.
       (case route of
          None \<Rightarrow> Ret (s, [Incr UNROUTED_POOLED_UDP_MESSAGE])
        | Some (ufrag, target) \<Rightarrow>
            (case allocate_handler target addr (u_udp_socket s) client_tx alloc of
               (Inl e, effs) \<Rightarrow> Ret (s, effs)
             | (Inr handler, effs) \<Rightarrow>
                 (case ProxyClient_send (h_socket handler) data (h_sender handler) send of
                    (Inr u, effs') \<Rightarrow>
                      Ret (s\<lparr>u_clients := fmupd addr \<lparr>p_handler = handler, p_ufrag = ufrag\<rparr> (u_clients s)\<rparr>,
                           effs @ effs')
                  | (Inl e, effs') \<Rightarrow> Ret (s, effs @ effs' @ ProxyClientHandler_drop handler)))))"

definition on_datagram :: "PooledUdpEndpoint \<Rightarrow> u8 list \<Rightarrow> SocketAddr \<Rightarrow> chan_id \<Rightarrow> send_io \<Rightarrow> alloc_io \<Rightarrow> send_io
    \<Rightarrow> (PooledUdpEndpoint \<times> udp_effect list) exec" where
  "on_datagram s data addr client_tx known alloc send =
     (case fmlookup (u_clients s) addr of
        Some client \<Rightarrow>
          (case ProxyClient_send (h_socket (p_handler client)) data (h_sender (p_handler client)) known of
             (Inr u, effs) \<Rightarrow> Ret (s, Incr IN_CLIENT_UDP_MESSAGE # effs)
           | (Inl e, effs) \<Rightarrow>
               exec_bind (route_afresh (s\<lparr>u_clients := fmdrop addr (u_clients s)\<rparr>) data addr client_tx alloc send)
                 (\<lambda>(s', effs'). Ret (s', Incr IN_CLIENT_UDP_MESSAGE
                    # effs @ ProxyClientHandler_drop (p_handler client) @ effs')))
      | None \<Rightarrow>
          exec_bind (route_afresh s data addr client_tx alloc send)
            (\<lambda>(s', effs'). Ret (s', Incr IN_CLIENT_UDP_MESSAGE # effs')))"

section \<open>The task\<close>

text \<open>
  The branches of the task's \<open>select!\<close>: a datagram with the results of the calls made for it; a
  relay's message with the state of the channels (\<open>is_closed\<close>); a control message, or \<open>None\<close> when
  the handle is gone.
\<close>

datatype pooled_event =
    PooledRecv "(u8 list \<times> SocketAddr) result" send_io alloc_io send_io
  | PooledClientRx ProxyClientMsg "chan_id \<Rightarrow> bool"
  | PooledControl "PooledUdpMsg option"

fun PooledUdpEndpoint_step :: "chan_id \<Rightarrow> (PooledUdpEndpoint, pooled_event, udp_effect) loop_step" where
  "PooledUdpEndpoint_step client_tx s (PooledRecv a known alloc send) =
     (case a of
        Inr (d, addr) \<Rightarrow>
          (case on_datagram s (recv_buf d) addr client_tx known alloc send of
             Ret (s', effs) \<Rightarrow> (s', effs, Continue)
           | Panic \<Rightarrow> (s, [], Break))
      | Inl e \<Rightarrow> (s, [], Continue))"
| "PooledUdpEndpoint_step client_tx s (PooledClientRx msg is_closed) =
     (case msg of
        ClientEnded addr \<Rightarrow>
          (case fmlookup (u_clients s) addr of
             Some c \<Rightarrow>
               if is_closed (h_sender (p_handler c))
               then (s\<lparr>u_clients := fmdrop addr (u_clients s)\<rparr>, ProxyClientHandler_drop (p_handler c), Continue)
               else (s, [], Continue)
           | None \<Rightarrow> (s, [], Continue))
      | _ \<Rightarrow> (s, [], Continue))"
| "PooledUdpEndpoint_step client_tx s (PooledControl m) =
     (case m of
        Some msg \<Rightarrow> (case on_control s msg of (s', effs) \<Rightarrow> (s', effs, Continue))
      | None \<Rightarrow> (s, [], Break))"

definition PooledUdpEndpoint_drop :: "PooledUdpEndpoint \<Rightarrow> udp_effect list" where
  "PooledUdpEndpoint_drop s = [AbortRelays (pooled_tasks (u_clients s))]"

definition PooledUdpEndpoint_run :: "chan_id \<Rightarrow> PooledUdpEndpoint \<Rightarrow> pooled_event list
    \<Rightarrow> PooledUdpEndpoint \<times> udp_effect list \<times> loop_ctl" where
  "PooledUdpEndpoint_run client_tx = run_loop (PooledUdpEndpoint_step client_tx) PooledUdpEndpoint_drop"

section \<open>The handle\<close>

record PooledUdpEndpointHandler =
  ph_local_port :: u16
  ph_control_tx :: chan_id
  ph_handle :: task_id

text \<open>
  \<open>bind\<close> as the sequence of socket calls it makes; \<open>fails\<close> gives the error of a call that fails.
  \<open>p\<close>, \<open>sid\<close>, \<open>cid\<close> and \<open>tid\<close> are the port read back and the handles of socket, control channel
  and task.
\<close>

datatype sock_call = SocketNew | SetReusePort | SetNonblocking | BindPort u16 | FromStd | LocalAddr

definition bind_calls :: "u16 \<Rightarrow> sock_call list" where
  "bind_calls port =
     [SocketNew] @ (if port \<noteq> 0 then [SetReusePort] else []) @
     [SetNonblocking, BindPort port, FromStd, LocalAddr]"

fun first_error :: "(sock_call \<Rightarrow> err option) \<Rightarrow> sock_call list \<Rightarrow> err option" where
  "first_error fails [] = None"
| "first_error fails (c # cs) = (case fails c of Some e \<Rightarrow> Some e | None \<Rightarrow> first_error fails cs)"

record pool_io =
  pb_fails :: "sock_call \<Rightarrow> err option"
  pb_port :: u16
  pb_sock :: sock_id
  pb_chan :: chan_id
  pb_task :: task_id

definition PooledUdpEndpointHandler_bind :: "u16 \<Rightarrow> pool_io
    \<Rightarrow> (PooledUdpEndpointHandler \<times> PooledUdpEndpoint) result \<times> udp_effect list" where
  "PooledUdpEndpointHandler_bind port io =
     (case first_error (pb_fails io) (bind_calls port) of
        Some e \<Rightarrow> (Inl e, [])
      | None \<Rightarrow>
          (case PooledUdpEndpoint_new (pb_sock io) of
             (endpoint, effs) \<Rightarrow>
               (Inr (\<lparr>ph_local_port = pb_port io, ph_control_tx = pb_chan io, ph_handle = pb_task io\<rparr>, endpoint),
                effs @ [SpawnPooled (pb_task io) (pb_sock io)])))"

text \<open>
  \<open>add_route\<close> and \<open>remove_session\<close>: send the control message and wait for the answer.  \<open>Delivered\<close>
  is the round trip to the task; the other two are a task that is gone before the message is
  taken or before it is answered.
\<close>

datatype rpc_io = Delivered | SendClosed | RecvClosed

definition handler_add_route :: "PooledUdpEndpoint \<Rightarrow> string \<Rightarrow> string \<Rightarrow> SocketAddr \<Rightarrow> oneshot_id \<Rightarrow> rpc_io
    \<Rightarrow> unit result \<times> PooledUdpEndpoint \<times> udp_effect list" where
  "handler_add_route task session_id ufrag target respond_to io =
     (case io of
        SendClosed \<Rightarrow> (Inl ''Pooled udp endpoint is closed'', task, [])
      | RecvClosed \<Rightarrow> (Inl ''channel closed'', task, [])
      | Delivered \<Rightarrow>
          (case on_control task (AddRoute session_id ufrag target respond_to) of
             (task', effs) \<Rightarrow> (Inr (), task', effs)))"

definition handler_remove_session :: "PooledUdpEndpoint \<Rightarrow> string \<Rightarrow> oneshot_id \<Rightarrow> rpc_io
    \<Rightarrow> bool result \<times> PooledUdpEndpoint \<times> udp_effect list" where
  "handler_remove_session task session_id respond_to io =
     (case io of
        SendClosed \<Rightarrow> (Inl ''Pooled udp endpoint is closed'', task, [])
      | RecvClosed \<Rightarrow> (Inl ''channel closed'', task, [])
      | Delivered \<Rightarrow>
          (case on_control task (RemoveSession session_id respond_to) of
             (task', effs) \<Rightarrow> (Inr (RespondFound respond_to True \<in> set effs), task', effs)))"

definition PooledUdpEndpointHandler_drop :: "PooledUdpEndpointHandler \<Rightarrow> udp_effect list" where
  "PooledUdpEndpointHandler_drop h = [AbortEndpoint (ph_handle h)]"

section \<open>The routing invariant\<close>

text \<open>
  A ufrag has a route if and only if some session uses it, and every registered client's relay
  is connected to the target its ufrag is routed to now.
\<close>

definition client_routed :: "PooledUdpEndpoint \<Rightarrow> PooledClient \<Rightarrow> bool" where
  "client_routed s c \<longleftrightarrow> fmlookup (u_routes s) (p_ufrag c) = Some (us_peer (h_socket (p_handler c)))"

definition pooled_wf :: "PooledUdpEndpoint \<Rightarrow> bool" where
  "pooled_wf s \<longleftrightarrow>
     fmdom (u_routes s) = fmran (u_sessions s) \<and>
     fmpred (\<lambda>addr c. client_routed s c) (u_clients s)"

lemma fmlookup_None_dom: "fmlookup m k = None \<longleftrightarrow> k |\<notin>| fmdom m"
  by (auto simp: fmlookup_dom_iff)

lemma pooled_wfI:
  assumes "\<And>u. u |\<in>| fmdom (u_routes s) \<longleftrightarrow> hm_any_value (u_sessions s) u"
    and "\<And>a c. fmlookup (u_clients s) a = Some c \<Longrightarrow> client_routed s c"
  shows "pooled_wf s"
  using assms unfolding pooled_wf_def by (auto simp: fset_eq_iff hm_any_value_def)

lemma pooled_wf_dom: "pooled_wf s \<Longrightarrow> u |\<in>| fmdom (u_routes s) \<longleftrightarrow> hm_any_value (u_sessions s) u"
  by (simp add: pooled_wf_def hm_any_value_def)

lemma pooled_wf_client: "pooled_wf s \<Longrightarrow> fmlookup (u_clients s) a = Some c \<Longrightarrow> client_routed s c"
  by (auto simp: pooled_wf_def)

lemma pooled_wf_new: "pooled_wf (fst (PooledUdpEndpoint_new sock))"
  by (auto simp: pooled_wf_def PooledUdpEndpoint_new_def)

text \<open>The helpers, field by field.\<close>

lemma drop_clients_fields [simp]:
  "u_routes (fst (drop_clients s u)) = u_routes s"
  "u_sessions (fst (drop_clients s u)) = u_sessions s"
  "u_udp_socket (fst (drop_clients s u)) = u_udp_socket s"
  "u_clients (fst (drop_clients s u)) = hm_retain (\<lambda>_ client. p_ufrag client \<noteq> u) (u_clients s)"
  by (simp_all add: drop_clients_def)

lemma forget_fields [simp]:
  "u_sessions (fst (forget_ufrag_if_unused s u)) = u_sessions s"
  "u_udp_socket (fst (forget_ufrag_if_unused s u)) = u_udp_socket s"
  "u_routes (fst (forget_ufrag_if_unused s u)) =
     (if hm_any_value (u_sessions s) u then u_routes s else fmdrop u (u_routes s))"
  "u_clients (fst (forget_ufrag_if_unused s u)) =
     (if hm_any_value (u_sessions s) u then u_clients s
      else hm_retain (\<lambda>_ client. p_ufrag client \<noteq> u) (u_clients s))"
  by (simp_all add: forget_ufrag_if_unused_def)

text \<open>
  \<open>AddRoute\<close> in one formula: the new session and route, the route of the ufrag the session gave
  up (if nobody else uses it) and every client whose ufrag was rerouted or given up.
\<close>

definition given_up :: "PooledUdpEndpoint \<Rightarrow> string \<Rightarrow> string \<Rightarrow> string \<Rightarrow> bool" where
  "given_up s session_id ufrag v \<longleftrightarrow>
     fmlookup (u_sessions s) session_id = Some v \<and> v \<noteq> ufrag \<and>
     \<not> hm_any_value (fmupd session_id ufrag (u_sessions s)) v"

definition rerouted :: "PooledUdpEndpoint \<Rightarrow> string \<Rightarrow> SocketAddr \<Rightarrow> bool" where
  "rerouted s ufrag target \<longleftrightarrow> (case fmlookup (u_routes s) ufrag of None \<Rightarrow> False | Some t \<Rightarrow> t \<noteq> target)"

lemma on_control_AddRoute:
  assumes "on_control s (AddRoute session_id ufrag target rt) = (s', effs)"
  shows "u_sessions s' = fmupd session_id ufrag (u_sessions s)"
    and "u_udp_socket s' = u_udp_socket s"
    and "fmlookup (u_routes s') v =
      (if v = ufrag then Some target else if given_up s session_id ufrag v then None else fmlookup (u_routes s) v)"
    and "fmlookup (u_clients s') a =
      (case fmlookup (u_clients s) a of
         None \<Rightarrow> None
       | Some c \<Rightarrow> if rerouted s ufrag target \<and> p_ufrag c = ufrag \<or> given_up s session_id ufrag (p_ufrag c)
                  then None else Some c)"
  using arg_cong [OF assms, of fst, symmetric]
  by (simp_all add: Let_def given_up_def rerouted_def split_beta split: option.splits)

lemma on_control_RemoveSession:
  assumes "on_control s (RemoveSession session_id rt) = (s', effs)"
  shows "u_sessions s' = fmdrop session_id (u_sessions s)"
    and "u_udp_socket s' = u_udp_socket s"
    and "fmlookup (u_routes s') v =
      (if fmlookup (u_sessions s) session_id = Some v \<and> \<not> hm_any_value (fmdrop session_id (u_sessions s)) v
       then None else fmlookup (u_routes s) v)"
    and "fmlookup (u_clients s') a =
      (case fmlookup (u_clients s) a of
         None \<Rightarrow> None
       | Some c \<Rightarrow> if fmlookup (u_sessions s) session_id = Some (p_ufrag c) \<and>
                     \<not> hm_any_value (fmdrop session_id (u_sessions s)) (p_ufrag c)
                  then None else Some c)"
  using arg_cong [OF assms, of fst, symmetric]
  by (auto simp: split_beta fmdrop_absent split: option.splits)

lemma on_control_AddRoute_wf:
  assumes wf: "pooled_wf s" and "on_control s (AddRoute session_id ufrag target rt) = (s', effs)"
  shows "pooled_wf s'"
proof (rule pooled_wfI)
  note add = on_control_AddRoute [OF assms(2)]
  fix v
  have "v |\<in>| fmdom (u_routes s') \<longleftrightarrow>
      v = ufrag \<or> (hm_any_value (u_sessions s) v \<and> \<not> given_up s session_id ufrag v)"
    using pooled_wf_dom [OF wf, of v] add(3) [of v]
    by (auto simp: fmlookup_dom_iff split: if_splits)
  also have "\<dots> \<longleftrightarrow> hm_any_value (u_sessions s') v"
    unfolding add(1) given_up_def hm_any_value_iff by auto
  finally show "v |\<in>| fmdom (u_routes s') \<longleftrightarrow> hm_any_value (u_sessions s') v" .
next
  note add = on_control_AddRoute [OF assms(2)]
  fix a c
  assume c: "fmlookup (u_clients s') a = Some c"
  then have "client_routed s c"
    using pooled_wf_client [OF wf, of a] by (auto simp: add(4) split: option.splits if_splits)
  with c show "client_routed s' c"
    by (auto simp: client_routed_def add(3,4) rerouted_def split: option.splits if_splits)
qed

lemma on_control_RemoveSession_wf:
  assumes wf: "pooled_wf s" and "on_control s (RemoveSession session_id rt) = (s', effs)"
  shows "pooled_wf s'"
proof (rule pooled_wfI)
  note rem = on_control_RemoveSession [OF assms(2)]
  fix v
  show "v |\<in>| fmdom (u_routes s') \<longleftrightarrow> hm_any_value (u_sessions s') v"
    using pooled_wf_dom [OF wf, of v] rem(3) [of v]
    by (auto simp: fmlookup_dom_iff hm_any_value_iff rem(1) split: if_splits)
next
  note rem = on_control_RemoveSession [OF assms(2)]
  fix a c
  assume c: "fmlookup (u_clients s') a = Some c"
  then have "client_routed s c"
    using pooled_wf_client [OF wf, of a] by (auto simp: rem(4) split: option.splits if_splits)
  with c show "client_routed s' c"
    by (auto simp: client_routed_def rem(3,4) split: option.splits if_splits)
qed

lemma on_control_wf: "pooled_wf s \<Longrightarrow> on_control s msg = (s', effs) \<Longrightarrow> pooled_wf s'"
  using on_control_AddRoute_wf on_control_RemoveSession_wf by (cases msg) blast+

text \<open>Clients may go, and a client with a correctly connected relay may come.\<close>

lemma pooled_wf_drop: "pooled_wf s \<Longrightarrow> pooled_wf (s\<lparr>u_clients := fmdrop a (u_clients s)\<rparr>)"
  by (auto simp: pooled_wf_def client_routed_def)

lemma pooled_wf_upd:
  "pooled_wf s \<Longrightarrow> fmlookup (u_routes s) (p_ufrag c) = Some (us_peer (h_socket (p_handler c))) \<Longrightarrow>
     pooled_wf (s\<lparr>u_clients := fmupd a c (u_clients s)\<rparr>)"
  by (auto simp: pooled_wf_def client_routed_def)

section \<open>Datagram handling by cases\<close>

lemma datagram_route_Some:
  "datagram_route s data = Ret (Some (u, t)) \<longleftrightarrow>
     local_ufrag data = Ret (Some u) \<and> fmlookup (u_routes s) u = Some t"
  by (auto simp: datagram_route_def exec_bind_Ret_iff split: option.splits)

lemma datagram_route_total: "\<exists>r. datagram_route s data = Ret r"
  using local_ufrag_total [of data] by (auto simp: datagram_route_def)

lemma route_afresh_cases:
  assumes "route_afresh s data addr tx alloc send = Ret (s', effs)"
  obtains
    (unrouted) "datagram_route s data = Ret None" "s' = s" "effs = [Incr UNROUTED_POOLED_UDP_MESSAGE]"
  | (no_relay) u t e where "datagram_route s data = Ret (Some (u, t))"
      "allocate_handler t addr (u_udp_socket s) tx alloc = (Inl e, [])" "s' = s" "effs = []"
  | (opened) u t h effs1 effs2 where "datagram_route s data = Ret (Some (u, t))"
      "allocate_handler t addr (u_udp_socket s) tx alloc = (Inr h, effs1)"
      "ProxyClient_send (h_socket h) data (h_sender h) send = (Inr (), effs2)"
      "s' = s\<lparr>u_clients := fmupd addr \<lparr>p_handler = h, p_ufrag = u\<rparr> (u_clients s)\<rparr>"
      "effs = effs1 @ effs2"
  | (dropped) u t h effs1 effs2 e where "datagram_route s data = Ret (Some (u, t))"
      "allocate_handler t addr (u_udp_socket s) tx alloc = (Inr h, effs1)"
      "ProxyClient_send (h_socket h) data (h_sender h) send = (Inl e, effs2)"
      "s' = s" "effs = effs1 @ effs2 @ [AbortRelays {|h_handler h|}]"
proof -
  obtain r where r: "datagram_route s data = Ret r"
    using datagram_route_total by blast
  show thesis
  proof (cases r)
    case None
    with r assms show thesis by (intro unrouted) (simp_all add: route_afresh_def)
  next
    case (Some p)
    obtain u t where p: "p = (u, t)" by (cases p)
    obtain a effs1 where al: "allocate_handler t addr (u_udp_socket s) tx alloc = (a, effs1)"
      by (cases "allocate_handler t addr (u_udp_socket s) tx alloc")
    show thesis
    proof (cases a)
      case (Inl e)
      with al have "effs1 = []" by (simp add: allocate_handler_Inl)
      with r Some p al Inl assms show thesis by (intro no_relay) (simp_all add: route_afresh_def)
    next
      case (Inr h)
      obtain b effs2 where send: "ProxyClient_send (h_socket h) data (h_sender h) send = (b, effs2)"
        by (cases "ProxyClient_send (h_socket h) data (h_sender h) send")
      show thesis
      proof (cases b)
        case (Inl e)
        with r Some p al \<open>a = Inr h\<close> send assms show thesis
          by (intro dropped) (auto simp: route_afresh_def ProxyClientHandler_drop_def)
      next
        case (Inr u)
        with r Some p al \<open>a = Inr h\<close> send assms show thesis
          by (intro opened) (auto simp: route_afresh_def)
      qed
    qed
  qed
qed

lemma route_afresh_wf:
  assumes "pooled_wf s" "route_afresh s data addr tx alloc send = Ret (s', effs)"
  shows "pooled_wf s'"
  using assms(2)
proof (cases rule: route_afresh_cases)
  case (opened u t h effs1 effs2)
  with assms(1) allocate_handler_Inr [OF opened(2)] show ?thesis
    by (simp add: datagram_route_Some pooled_wf_upd)
qed (use assms(1) in simp_all)

lemma route_afresh_total: "\<exists>s' effs. route_afresh s data addr tx alloc send = Ret (s', effs)"
proof -
  obtain r where "datagram_route s data = Ret r"
    using datagram_route_total by blast
  then show ?thesis
    by (auto simp: route_afresh_def split: option.splits prod.splits sum.splits)
qed

text \<open>
  \<open>on_datagram\<close>: either the address has a live relay and the state stays as it is, or the relay
  registered for it (if any) is dropped and the datagram is routed afresh.
\<close>

lemma on_datagram_cases:
  assumes "on_datagram s data addr tx known alloc send = Ret (s', effs)"
  obtains
    (live) c effs1 where "fmlookup (u_clients s) addr = Some c"
      "ProxyClient_send (h_socket (p_handler c)) data (h_sender (p_handler c)) known = (Inr (), effs1)"
      "s' = s" "effs = Incr IN_CLIENT_UDP_MESSAGE # effs1"
  | (stale) c e effs1 effs2 where "fmlookup (u_clients s) addr = Some c"
      "ProxyClient_send (h_socket (p_handler c)) data (h_sender (p_handler c)) known = (Inl e, effs1)"
      "route_afresh (s\<lparr>u_clients := fmdrop addr (u_clients s)\<rparr>) data addr tx alloc send = Ret (s', effs2)"
      "effs = Incr IN_CLIENT_UDP_MESSAGE # effs1 @ AbortRelays {|h_handler (p_handler c)|} # effs2"
  | (unknown) effs2 where "fmlookup (u_clients s) addr = None"
      "route_afresh s data addr tx alloc send = Ret (s', effs2)"
      "effs = Incr IN_CLIENT_UDP_MESSAGE # effs2"
proof (cases "fmlookup (u_clients s) addr")
  case None
  with assms obtain effs2 where "route_afresh s data addr tx alloc send = Ret (s', effs2)"
      "effs = Incr IN_CLIENT_UDP_MESSAGE # effs2"
    by (auto simp: on_datagram_def exec_bind_Ret_iff)
  with None show thesis by (intro unknown)
next
  case (Some c)
  obtain b effs1 where
    send: "ProxyClient_send (h_socket (p_handler c)) data (h_sender (p_handler c)) known = (b, effs1)"
    by (cases "ProxyClient_send (h_socket (p_handler c)) data (h_sender (p_handler c)) known")
  show thesis
  proof (cases b)
    case (Inl e)
    with assms Some send obtain effs2 where
      "route_afresh (s\<lparr>u_clients := fmdrop addr (u_clients s)\<rparr>) data addr tx alloc send = Ret (s', effs2)"
      "effs = Incr IN_CLIENT_UDP_MESSAGE # effs1 @ AbortRelays {|h_handler (p_handler c)|} # effs2"
      by (auto simp: on_datagram_def exec_bind_Ret_iff ProxyClientHandler_drop_def)
    with Some send Inl show thesis by (intro stale) simp_all
  next
    case (Inr u)
    with assms Some send show thesis by (intro live) (auto simp: on_datagram_def)
  qed
qed

lemma on_datagram_total: "\<exists>s' effs. on_datagram s data addr tx known alloc send = Ret (s', effs)"
proof -
  obtain s1 effs1 s2 effs2 where
    "route_afresh s data addr tx alloc send = Ret (s1, effs1)"
    "route_afresh (s\<lparr>u_clients := fmdrop addr (u_clients s)\<rparr>) data addr tx alloc send = Ret (s2, effs2)"
    using route_afresh_total by metis
  then show ?thesis
    by (auto simp: on_datagram_def split: option.splits prod.splits sum.splits)
qed

lemma on_datagram_wf:
  assumes "pooled_wf s" "on_datagram s data addr tx known alloc send = Ret (s', effs)"
  shows "pooled_wf s'"
  using assms(2)
proof (cases rule: on_datagram_cases)
  case stale
  then show ?thesis using pooled_wf_drop [OF assms(1)] route_afresh_wf by blast
qed (use assms(1) route_afresh_wf in blast)+

section \<open>Steps of the task\<close>

fun control_of :: "pooled_event \<Rightarrow> PooledUdpMsg list" where
  "control_of (PooledControl (Some msg)) = [msg]"
| "control_of _ = []"

lemma pooled_step_recv:
  assumes "PooledUdpEndpoint_step tx s (PooledRecv (Inr (d, addr)) known alloc send) = (s', outs, ctl)"
  shows "on_datagram s (recv_buf d) addr tx known alloc send = Ret (s', outs)" "ctl = Continue"
  using assms on_datagram_total [of s "recv_buf d" addr tx known alloc send] by auto

lemma pooled_step_cases:
  assumes "PooledUdpEndpoint_step tx s e = (s', outs, ctl)"
  obtains
    (datagram) d addr known alloc send where "e = PooledRecv (Inr (d, addr)) known alloc send"
      "on_datagram s (recv_buf d) addr tx known alloc send = Ret (s', outs)" "ctl = Continue"
  | (control) msg where "e = PooledControl (Some msg)" "on_control s msg = (s', outs)" "ctl = Continue"
  | (ended) addr is_closed c where "e = PooledClientRx (ClientEnded addr) is_closed"
      "fmlookup (u_clients s) addr = Some c" "is_closed (h_sender (p_handler c))"
      "s' = s\<lparr>u_clients := fmdrop addr (u_clients s)\<rparr>" "outs = [AbortRelays {|h_handler (p_handler c)|}]"
      "ctl = Continue"
  | (nothing) "s' = s" "outs = []" "ctl = Continue" "control_of e = []" "e \<noteq> PooledControl None"
  | (closed) "e = PooledControl None" "s' = s" "outs = []" "ctl = Break"
proof (cases e)
  case (PooledRecv a known alloc send)
  show thesis
  proof (cases a)
    case (Inl x)
    with PooledRecv assms show thesis by - (rule nothing, auto)
  next
    case (Inr b)
    then obtain d addr where "a = Inr (d, addr)" by (cases b) auto
    with PooledRecv assms show thesis using pooled_step_recv [of tx s d addr] by (intro datagram) simp_all
  qed
next
  case (PooledClientRx msg is_closed)
  show thesis
  proof (cases "\<exists>addr c. msg = ClientEnded addr \<and> fmlookup (u_clients s) addr = Some c \<and>
      is_closed (h_sender (p_handler c))")
    case True
    then obtain addr c where c: "msg = ClientEnded addr" "fmlookup (u_clients s) addr = Some c"
      "is_closed (h_sender (p_handler c))" by blast
    with PooledClientRx assms show thesis
      by - (rule ended [of addr is_closed c], auto simp: ProxyClientHandler_drop_def)
  next
    case False
    with PooledClientRx assms have "s' = s" "outs = []" "ctl = Continue"
      by (auto split: ProxyClientMsg.splits option.splits if_splits)
    then show thesis by (rule nothing) (simp_all add: PooledClientRx)
  qed
next
  case (PooledControl m)
  show thesis
  proof (cases m)
    case None
    with PooledControl assms show thesis by - (rule closed, auto)
  next
    case (Some msg)
    with PooledControl assms show thesis
      by - (rule control, auto split: prod.splits)
  qed
qed

lemma pooled_step_wf:
  assumes "pooled_wf s" "PooledUdpEndpoint_step tx s e = (s', outs, ctl)"
  shows "pooled_wf s'"
  using assms(2)
proof (cases rule: pooled_step_cases)
  case datagram
  then show ?thesis using assms(1) on_datagram_wf by blast
next
  case control
  then show ?thesis using assms(1) on_control_wf by blast
next
  case ended
  then show ?thesis using assms(1) by (simp add: pooled_wf_drop)
qed (use assms(1) in simp_all)

section \<open>Reachable states\<close>

text \<open>
  \<open>pooled_reachable tx sock es s\<close>: the task, started on \<open>sock\<close>, is running in state \<open>s\<close> after the
  events \<open>es\<close>.
\<close>

inductive pooled_reachable :: "chan_id \<Rightarrow> sock_id \<Rightarrow> pooled_event list \<Rightarrow> PooledUdpEndpoint \<Rightarrow> bool"
  for tx :: chan_id and sock :: sock_id where
  reachable_new: "pooled_reachable tx sock [] (fst (PooledUdpEndpoint_new sock))"
| reachable_step: "pooled_reachable tx sock es s \<Longrightarrow>
     PooledUdpEndpoint_step tx s e = (s', outs, Continue) \<Longrightarrow> pooled_reachable tx sock (es @ [e]) s'"

lemma reachable_run:
  "pooled_reachable tx sock es s \<Longrightarrow>
     \<exists>outs. PooledUdpEndpoint_run tx (fst (PooledUdpEndpoint_new sock)) es = (s, outs, Continue)"
proof (induction rule: pooled_reachable.induct)
  case (reachable_step es s e s' outs)
  then show ?case
    unfolding PooledUdpEndpoint_run_def by (auto simp: run_loop_append)
qed (simp add: PooledUdpEndpoint_run_def)

lemma run_reachable:
  assumes "PooledUdpEndpoint_run tx (fst (PooledUdpEndpoint_new sock)) es = (s, outs, Continue)"
  shows "pooled_reachable tx sock es s"
proof -
  let ?step = "PooledUdpEndpoint_step tx"
  have "pooled_reachable tx sock es0 s0 \<Longrightarrow> run_loop ?step PooledUdpEndpoint_drop s0 es1 = (s, outs1, Continue)
    \<Longrightarrow> pooled_reachable tx sock (es0 @ es1) s" for es0 s0 es1 outs1
  proof (induction es1 arbitrary: es0 s0 outs1)
    case (Cons e es1)
    then obtain s1 outs2 outs3 where "?step s0 e = (s1, outs2, Continue)"
      "run_loop ?step PooledUdpEndpoint_drop s1 es1 = (s, outs3, Continue)"
      by (auto split: prod.splits loop_ctl.splits)
    with Cons reachable_step show ?case
      by (metis append.assoc append_Cons append_Nil)
  qed simp
  from this [OF reachable_new] assms show ?thesis
    by (simp add: PooledUdpEndpoint_run_def)
qed

lemma reachable_wf: "pooled_reachable tx sock es s \<Longrightarrow> pooled_wf s"
  by (induction rule: pooled_reachable.induct) (auto intro: pooled_wf_new pooled_step_wf)

text \<open>A client enters the table only with a datagram that shows the ufrag it is registered under.\<close>

fun shows_ufrag :: "SocketAddr \<Rightarrow> string \<Rightarrow> pooled_event \<Rightarrow> bool" where
  "shows_ufrag a u (PooledRecv (Inr (d, addr)) known alloc send) \<longleftrightarrow>
     addr = a \<and> local_ufrag (recv_buf d) = Ret (Some u)"
| "shows_ufrag a u _ \<longleftrightarrow> False"

lemma route_afresh_client:
  assumes "route_afresh s data addr tx alloc send = Ret (s', effs)"
    and "fmlookup (u_clients s') a = Some c"
  shows "fmlookup (u_clients s) a = Some c \<or> a = addr \<and> local_ufrag data = Ret (Some (p_ufrag c))"
  using assms(1)
  by (cases rule: route_afresh_cases) (use assms(2) in \<open>auto simp: datagram_route_Some split: if_splits\<close>)

lemma on_datagram_client:
  assumes "on_datagram s data addr tx known alloc send = Ret (s', effs)"
    and "fmlookup (u_clients s') a = Some c"
  shows "fmlookup (u_clients s) a = Some c \<or> a = addr \<and> local_ufrag data = Ret (Some (p_ufrag c))"
  using assms(1)
proof (cases rule: on_datagram_cases)
  case stale
  then show ?thesis using route_afresh_client [OF stale(3) assms(2)] by (auto split: if_splits)
qed (use assms(2) route_afresh_client in auto)

lemma on_control_client:
  "on_control s msg = (s', effs) \<Longrightarrow> fmlookup (u_clients s') a = Some c \<Longrightarrow> fmlookup (u_clients s) a = Some c"
  by (cases msg)
    (auto simp: on_control_AddRoute(4) on_control_RemoveSession(4) simp del: on_control.simps
      split: option.splits if_splits)

lemma pooled_step_client:
  assumes "PooledUdpEndpoint_step tx s e = (s', outs, ctl)" "fmlookup (u_clients s') a = Some c"
  shows "fmlookup (u_clients s) a = Some c \<or> shows_ufrag a (p_ufrag c) e"
  using assms(1)
proof (cases rule: pooled_step_cases)
  case datagram
  then show ?thesis using on_datagram_client [OF datagram(2) assms(2)] by auto
next
  case control
  then show ?thesis using on_control_client [OF control(2) assms(2)] by simp
qed (use assms(2) in \<open>auto split: if_splits\<close>)

lemma reachable_client:
  "pooled_reachable tx sock es s \<Longrightarrow> fmlookup (u_clients s) a = Some c \<Longrightarrow>
     list_ex (shows_ufrag a (p_ufrag c)) es"
proof (induction rule: pooled_reachable.induct)
  case reachable_new
  then show ?case by (simp add: PooledUdpEndpoint_new_def)
next
  case (reachable_step es s e s' outs)
  then show ?case using pooled_step_client by fastforce
qed

text \<open>What a step sends to targets.\<close>

lemma on_control_sends: "on_control s msg = (s', effs) \<Longrightarrow> SendDatagram us d \<notin> set effs"
  by (cases msg)
    (auto simp: Let_def forget_ufrag_if_unused_def drop_clients_def split: option.splits if_splits prod.splits)

lemma allocate_handler_sends:
  "allocate_handler remote addr sock tx io = (r, effs) \<Longrightarrow> SendDatagram us d \<notin> set effs"
  by (auto simp: allocate_handler_def ProxyClient_new_def Let_def split: alloc_io.splits)

lemma route_afresh_sends:
  assumes "route_afresh s data addr tx alloc send = Ret (s', effs)" and "SendDatagram us d \<in> set effs"
  shows "d = data \<and> (\<exists>u. local_ufrag data = Ret (Some u) \<and> fmlookup (u_routes s) u = Some (us_peer us))"
  using assms(1)
proof (cases rule: route_afresh_cases)
  case (opened u t h effs1 effs2)
  with assms(2) allocate_handler_Inr [OF opened(2)] show ?thesis
    using allocate_handler_sends [OF opened(2)] ProxyClient_send_effects [OF opened(3)]
    by (auto simp: datagram_route_Some)
next
  case (dropped u t h effs1 effs2 e)
  with assms(2) allocate_handler_Inr [OF dropped(2)] show ?thesis
    using allocate_handler_sends [OF dropped(2)] ProxyClient_send_effects [OF dropped(3)]
    by (auto simp: datagram_route_Some)
qed (use assms(2) in auto)

lemma on_datagram_sends:
  assumes "on_datagram s data addr tx known alloc send = Ret (s', effs)" and "SendDatagram us d \<in> set effs"
    and "pooled_wf s"
  shows "d = data \<and> (\<exists>u. fmlookup (u_routes s) u = Some (us_peer us) \<and>
    (local_ufrag data = Ret (Some u) \<or> (\<exists>c. fmlookup (u_clients s) addr = Some c \<and> p_ufrag c = u)))"
  using assms(1)
proof (cases rule: on_datagram_cases)
  case (live c effs1)
  then show ?thesis
    using ProxyClient_send_effects [OF live(2)] assms(2) pooled_wf_client [OF assms(3) live(1)]
    by (auto simp: client_routed_def)
next
  case (stale c e effs1 effs2)
  then show ?thesis
    using ProxyClient_send_effects [OF stale(2)] assms(2) pooled_wf_client [OF assms(3) stale(1)]
      route_afresh_sends [OF stale(3), of us d]
    by (auto simp: client_routed_def)
next
  case (unknown effs2)
  then show ?thesis using assms(2) route_afresh_sends [OF unknown(2), of us d] by auto
qed

section \<open>Isolation between sessions\<close>

text \<open>
  C1. Isolation on a shared socket.  Whatever happened before, a datagram leaves a pooled socket
  towards a target only while that target is the route of an ufrag some session uses at this
  moment, it is the datagram received in this very step, unchanged but for the buffer limit, and
  the address it came from has shown that ufrag in a STUN binding request, now or earlier.
\<close>

theorem pooled_isolation:
  assumes "pooled_reachable tx sock es s"
    and "PooledUdpEndpoint_step tx s e = (s', outs, ctl)"
    and "SendDatagram us d \<in> set outs"
  shows "\<exists>data addr known alloc send session_id u. e = PooledRecv (Inr (data, addr)) known alloc send \<and>
    d = recv_buf data \<and> fmlookup (u_sessions s) session_id = Some u \<and>
    fmlookup (u_routes s) u = Some (us_peer us) \<and> list_ex (shows_ufrag addr u) (es @ [e])"
  using assms(2)
proof (cases rule: pooled_step_cases)
  case (datagram data addr known alloc send)
  obtain u where u: "d = recv_buf data" "fmlookup (u_routes s) u = Some (us_peer us)"
    "local_ufrag (recv_buf data) = Ret (Some u) \<or> (\<exists>c. fmlookup (u_clients s) addr = Some c \<and> p_ufrag c = u)"
    using on_datagram_sends [OF datagram(2) assms(3) reachable_wf [OF assms(1)]] by blast
  then have "u |\<in>| fmdom (u_routes s)" by (auto intro: fmdomI)
  then obtain session_id where "fmlookup (u_sessions s) session_id = Some u"
    using pooled_wf_dom [OF reachable_wf [OF assms(1)]] by (auto simp: hm_any_value_iff)
  moreover have "list_ex (shows_ufrag addr u) (es @ [e])"
    using u(3) reachable_client [OF assms(1), of addr] datagram(1) by auto
  ultimately show ?thesis using u(1,2) datagram(1) by blast
next
  case control
  then show ?thesis using assms(3) on_control_sends by blast
qed (use assms(3) in auto)

text \<open>
  Anything else is dropped: a datagram from an address without a registered client that does
  not show a routed ufrag (not a binding request, or an ufrag no session uses) changes nothing,
  opens no relay, is sent nowhere and is counted as unrouted.
\<close>

lemma unrouted_datagram_dropped:
  assumes "fmlookup (u_clients s) addr = None"
    and "\<forall>u. local_ufrag (recv_buf d) = Ret (Some u) \<longrightarrow> fmlookup (u_routes s) u = None"
  shows "PooledUdpEndpoint_step tx s (PooledRecv (Inr (d, addr)) known alloc send) =
    (s, [Incr IN_CLIENT_UDP_MESSAGE, Incr UNROUTED_POOLED_UDP_MESSAGE], Continue)"
proof -
  obtain r where r: "local_ufrag (recv_buf d) = Ret r"
    using local_ufrag_total by blast
  with assms(2) have "datagram_route s (recv_buf d) = Ret None"
    by (auto simp: datagram_route_def split: option.splits)
  with assms(1) show ?thesis
    by (simp add: on_datagram_def route_afresh_def)
qed

section \<open>Life cycle of relays\<close>

abbreviation handlers :: "PooledUdpEndpoint \<Rightarrow> client_table" where
  "handlers s \<equiv> fmmap p_handler (u_clients s)"

lemma pooled_tasks_handlers: "pooled_tasks m = client_tasks (fmmap p_handler m)"
  by (simp add: pooled_tasks_def client_tasks_def fset.map_comp comp_def)

lemma fset_pooled_tasks: "fset (pooled_tasks m) = {h_handler (p_handler c) | a c. fmlookup m a = Some c}"
  by (force simp: pooled_tasks_def fmlookup_ran_iff)

lemma gone_handlers:
  "gone (fmmap p_handler m) (fmmap p_handler m') =
     {h_handler (p_handler c) | a c. fmlookup m a = Some c \<and> fmlookup m' a = None}"
  by (auto simp: gone_def)

lemma drop_clients_drops: "drops (handlers s) (snd (drop_clients s u)) (handlers (fst (drop_clients s u)))"
  unfolding drops_def gone_handlers
  by (auto simp: drop_clients_def fset_pooled_tasks split: option.splits if_splits)

lemma forget_drops:
  "drops (handlers s) (snd (forget_ufrag_if_unused s u)) (handlers (fst (forget_ufrag_if_unused s u)))"
  using drop_clients_drops [of "s\<lparr>u_routes := fmdrop u (u_routes s)\<rparr>" u]
  by (auto simp: forget_ufrag_if_unused_def drops_refl)

lemma on_control_drops:
  assumes "on_control s msg = (s', effs)"
  shows "drops (handlers s) effs (handlers s')"
proof (cases msg)
  case (AddRoute session_id ufrag target rt)
  let ?s1 = "s\<lparr>u_routes := fmupd ufrag target (u_routes s)\<rparr>"
  obtain s2 effs1 where one: "(case fmlookup (u_routes s) ufrag of
       Some previous \<Rightarrow> if previous \<noteq> target then drop_clients ?s1 ufrag else (?s1, [])
     | None \<Rightarrow> (?s1, [])) = (s2, effs1)"
    by fastforce
  let ?s3 = "s2\<lparr>u_sessions := fmupd session_id ufrag (u_sessions s2)\<rparr>"
  obtain s4 effs2 where two: "(case fmlookup (u_sessions s2) session_id of
       Some previous \<Rightarrow> if previous \<noteq> ufrag then forget_ufrag_if_unused ?s3 previous else (?s3, [])
     | None \<Rightarrow> (?s3, [])) = (s4, effs2)"
    by fastforce
  have "drops (handlers s) effs1 (handlers s2)"
    using one drop_clients_drops [of ?s1 ufrag]
    by (auto simp: drops_refl simp del: drop_clients_fields split: option.splits if_splits)
  moreover have "drops (handlers s2) effs2 (handlers s4)"
    using two forget_drops [of ?s3]
    by (auto simp: drops_refl simp del: forget_fields split: option.splits if_splits) (metis fst_conv snd_conv)
  moreover have "drops (handlers s4) [RespondAdded rt] (handlers s4)"
    by (simp add: drops_refl)
  ultimately have "drops (handlers s) (effs1 @ effs2 @ [RespondAdded rt]) (handlers s4)"
    by (intro drops_append)
  then show ?thesis
    using assms one two AddRoute by (simp add: Let_def)
next
  case (RemoveSession session_id rt)
  let ?s1 = "s\<lparr>u_sessions := fmdrop session_id (u_sessions s)\<rparr>"
  have "drops (handlers s) (snd (forget_ufrag_if_unused ?s1 u) @ [RespondFound rt True])
      (handlers (fst (forget_ufrag_if_unused ?s1 u)))" for u
    using drops_append [OF forget_drops [of ?s1 u] drops_refl [OF refl], of "[RespondFound rt True]"] by simp
  then show ?thesis
    using assms RemoveSession
    by (auto simp: drops_refl split_beta split: option.splits)
qed

lemma route_afresh_changes:
  assumes "route_afresh s data addr tx alloc send = Ret (s', effs)" "fmlookup (u_clients s) addr = None"
    and dr: "drops m outs (handlers s)"
  shows "changes (Some alloc) m (outs @ effs) (handlers s')"
proof -
  have new: "fmlookup (handlers s) addr = None" using assms(2) by simp
  have quiet: "changes (Some alloc) m (outs @ effs) (handlers s')"
    if "s' = s" "spawned effs = {}" "aborted effs = {}"
    using drops_append [OF dr drops_refl [OF refl that(2,3)]] that(1) by (auto intro: only_drops)
  from assms(1) show ?thesis
  proof (cases rule: route_afresh_cases)
    case (opened u t h effs1 effs2)
    have "drops (fmupd addr h (handlers s)) effs2 (handlers s')"
      using send_tasks [OF opened(3)] by (simp add: opened(4) drops_refl fmmap_fmupd)
    from opens [OF dr new opened(2) this] show ?thesis by (simp add: opened(5))
  next
    case (dropped u t h effs1 effs2 e)
    have "fmlookup (fmupd addr h (handlers s)) addr = Some h" by simp
    from drops_append [OF drops_refl [OF refl] drops_one [OF this]] send_tasks [OF dropped(3)]
    have "drops (fmupd addr h (handlers s)) (effs2 @ [AbortRelays {|h_handler h|}])
        (fmdrop addr (fmupd addr h (handlers s)))" by blast
    moreover have "fmdrop addr (fmupd addr h (handlers s)) = handlers s'"
      using new by (intro fmap_ext) (auto simp: dropped(4))
    ultimately show ?thesis
      using opens [OF dr new dropped(2)] by (simp add: dropped(5))
  qed (rule quiet; simp)+
qed

lemma on_datagram_changes:
  assumes "on_datagram s data addr tx known alloc send = Ret (s', effs)"
  shows "changes (Some alloc) (handlers s) effs (handlers s')"
  using assms
proof (cases rule: on_datagram_cases)
  case (live c effs1)
  with send_tasks [OF live(2)] show ?thesis by (simp add: drops_refl only_drops)
next
  case (stale c e effs1 effs2)
  let ?s1 = "s\<lparr>u_clients := fmdrop addr (u_clients s)\<rparr>"
  have known: "fmlookup (handlers s) addr = Some (p_handler c)" by (simp add: stale(1))
  have quiet: "drops (handlers s) (Incr IN_CLIENT_UDP_MESSAGE # effs1) (handlers s)"
    using send_tasks [OF stale(2)] by (simp add: drops_refl)
  have gone: "handlers ?s1 = fmdrop addr (handlers s)" by simp
  have "fmlookup (u_clients ?s1) addr = None" by simp
  from route_afresh_changes [OF stale(3) this, unfolded gone, OF drops_append [OF quiet drops_one [OF known]]]
  show ?thesis by (simp add: stale(4))
next
  case (unknown effs2)
  have "drops (handlers s) [Incr IN_CLIENT_UDP_MESSAGE] (handlers s)" by (simp add: drops_refl)
  from route_afresh_changes [OF unknown(2,1) this] show ?thesis by (simp add: unknown(3))
qed

fun pooled_own :: "pooled_event \<Rightarrow> bool" where
  "pooled_own (PooledClientRx msg is_closed) \<longleftrightarrow> False"
| "pooled_own _ \<longleftrightarrow> True"

fun pooled_alloc :: "pooled_event \<Rightarrow> alloc_io option" where
  "pooled_alloc (PooledRecv a known alloc send) = Some alloc"
| "pooled_alloc _ = None"

lemma pooled_step_changes:
  assumes "PooledUdpEndpoint_step tx s e = (s', outs, ctl)"
  shows "changes (pooled_alloc e) (handlers s) outs (handlers s')"
  using assms
proof (cases rule: pooled_step_cases)
  case datagram
  then show ?thesis by (simp add: on_datagram_changes)
next
  case control
  then show ?thesis by (simp add: on_control_drops only_drops)
next
  case (ended addr is_closed c)
  have known: "fmlookup (handlers s) addr = Some (p_handler c)" by (simp add: ended(2))
  have gone: "handlers s' = fmdrop addr (handlers s)" by (simp add: ended(4))
  show ?thesis
    unfolding gone ended(5) by (rule only_drops [OF drops_one [OF known]])
qed (auto intro!: only_drops drops_refl)

definition pooled_host :: "chan_id \<Rightarrow> (PooledUdpEndpoint, pooled_event) host" where
  "pooled_host tx =
     \<lparr>hs_step = PooledUdpEndpoint_step tx, hs_finish = PooledUdpEndpoint_drop, hs_drop = PooledUdpEndpoint_drop,
      hs_clients = (\<lambda>s. handlers s), hs_own = pooled_own, hs_alloc = pooled_alloc,
      hs_report = (\<lambda>a. PooledClientRx (ClientEnded a))\<rparr>"

lemma pooled_host_simps [simp]:
  "hs_step (pooled_host tx) = PooledUdpEndpoint_step tx"
  "hs_finish (pooled_host tx) = PooledUdpEndpoint_drop"
  "hs_drop (pooled_host tx) = PooledUdpEndpoint_drop"
  "hs_clients (pooled_host tx) s = handlers s"
  "hs_own (pooled_host tx) = pooled_own"
  "hs_alloc (pooled_host tx) = pooled_alloc"
  "hs_report (pooled_host tx) a = PooledClientRx (ClientEnded a)"
  by (simp_all add: pooled_host_def)

interpretation pooled: relay_host "pooled_host tx" pooled_wf for tx
proof (unfold_locales, unfold pooled_host_simps)
  show "pooled_wf s'" if "pooled_wf s" "PooledUdpEndpoint_step tx s e = (s', outs, c)" for s e s' outs c
    using that by (rule pooled_step_wf)
  show "\<not> closed (h_sender h)" if "PooledUdpEndpoint_step tx s (PooledClientRx (ClientEnded a) closed) = (s', outs, c)"
    "fmlookup (handlers s') a = Some h" for s a closed s' outs c h
    using that by (auto split: option.splits if_splits)
qed (auto simp: PooledUdpEndpoint_drop_def pooled_tasks_handlers intro: pooled_step_changes)

text \<open>
  No relay outlives its pooled socket: from the start of the task to any moment, each relay it
  has started is still registered as a client or has been aborted; when the task has ended, all
  of them have been aborted.
\<close>

lemma pooled_no_relay_leak:
  assumes "PooledUdpEndpoint_run tx (fst (PooledUdpEndpoint_new sock)) es = (s, outs, ctl)"
  shows "spawned outs \<subseteq> (if ctl = Continue then fset (pooled_tasks (u_clients s)) else {}) \<union> aborted outs"
  using pooled.owner.run_owned [unfolded pooled_host_simps, OF assms [unfolded PooledUdpEndpoint_run_def]]
  unfolding pooled_tasks_handlers by blast

text \<open>
  C10. The pooled socket and its relays together, under any interleaving of datagrams, control
  messages, relay traffic and end reports: a relay runs only while its socket's task is alive, is
  the one registered there for its client, and is connected to the target an ufrag of a live
  session is routed to at this moment; and when no end report is under way, the registered clients
  are exactly the running relays.
\<close>

theorem pooled_relays_serve_routes:
  assumes "sys_reachable (pooled_host tx) (fst (PooledUdpEndpoint_new sock)) y"
  shows "(\<forall>t r. fmlookup (y_relays y) t = Some r \<longrightarrow>
      (\<exists>s c i. y_host y = Some s \<and> fmlookup (u_clients s) (c_addr r) = Some c \<and> h_handler (p_handler c) = t \<and>
        fmlookup (u_sessions s) i = Some (p_ufrag c) \<and>
        fmlookup (u_routes s) (p_ufrag c) = Some (us_peer (c_socket r)))) \<and>
    (\<forall>s. y_host y = Some s \<longrightarrow> y_reports y = [] \<longrightarrow> pooled_tasks (u_clients s) = fmdom (y_relays y))"
proof (intro conjI allI impI)
  have start: "hs_clients (pooled_host tx) (fst (PooledUdpEndpoint_new sock)) = fmempty"
    by (simp add: PooledUdpEndpoint_new_def)
  fix t r
  assume "fmlookup (y_relays y) t = Some r"
  from pooled.relay_registered [OF assms pooled_wf_new start this]
  obtain s h where s: "y_host y = Some s" "pooled_wf s" "fmlookup (handlers s) (c_addr r) = Some h"
    "h_handler h = t" "h_socket h = c_socket r"
    by auto
  from s(3) obtain c where c: "fmlookup (u_clients s) (c_addr r) = Some c" "p_handler c = h" by auto
  then have routed: "fmlookup (u_routes s) (p_ufrag c) = Some (us_peer (c_socket r))"
    using pooled_wf_client [OF s(2) c(1)] s(5) by (simp add: client_routed_def)
  then obtain i where "fmlookup (u_sessions s) i = Some (p_ufrag c)"
    using pooled_wf_dom [OF s(2)] by (auto simp: hm_any_value_iff dest: fmdomI)
  with s c routed show "\<exists>s c i. y_host y = Some s \<and> fmlookup (u_clients s) (c_addr r) = Some c \<and>
      h_handler (p_handler c) = t \<and> fmlookup (u_sessions s) i = Some (p_ufrag c) \<and>
      fmlookup (u_routes s) (p_ufrag c) = Some (us_peer (c_socket r))"
    by blast
next
  have start: "hs_clients (pooled_host tx) (fst (PooledUdpEndpoint_new sock)) = fmempty"
    by (simp add: PooledUdpEndpoint_new_def)
  show "pooled_tasks (u_clients s) = fmdom (y_relays y)" if "y_host y = Some s" "y_reports y = []" for s
    using pooled.quiescent_exact [OF assms pooled_wf_new start that] by (simp add: pooled_tasks_handlers)
qed

section \<open>The route table\<close>

text \<open>The control messages implement the interface \<open>route_table\<close>.\<close>

lemma ran_sessions: "u \<in> ran (fmlookup m) \<longleftrightarrow> hm_any_value m u"
  by (auto simp: hm_any_value_iff ran_def)

abbreviation control_add :: "oneshot_id \<Rightarrow> PooledUdpEndpoint \<Rightarrow> string \<Rightarrow> string \<Rightarrow> SocketAddr \<Rightarrow> PooledUdpEndpoint" where
  "control_add rt s i u t \<equiv> fst (on_control s (AddRoute i u t rt))"

abbreviation control_remove :: "oneshot_id \<Rightarrow> PooledUdpEndpoint \<Rightarrow> string \<Rightarrow> PooledUdpEndpoint" where
  "control_remove rt s i \<equiv> fst (on_control s (RemoveSession i rt))"

interpretation pooled_table: route_table pooled_wf "\<lambda>s. fmlookup (u_sessions s)" "\<lambda>s. fmlookup (u_routes s)"
  "control_add rt" "control_remove rt" for rt
proof
  fix s i u t v
  obtain s1 effs1 s2 effs2 where a: "on_control s (AddRoute i u t rt) = (s1, effs1)"
    and r: "on_control s (RemoveSession i rt) = (s2, effs2)"
    by fastforce
  note defs = on_control_AddRoute [OF a] on_control_RemoveSession [OF r]
  show "fmlookup (u_sessions (control_add rt s i u t)) = (fmlookup (u_sessions s))(i \<mapsto> u)"
    unfolding a using defs(1) by auto
  show "fmlookup (u_sessions (control_remove rt s i)) = (fmlookup (u_sessions s))(i := None)"
    unfolding r using defs(5) by auto
  assume wf: "pooled_wf s"
  show "pooled_wf (control_add rt s i u t)"
    unfolding a using on_control_AddRoute_wf [OF wf a] by simp
  show "pooled_wf (control_remove rt s i)"
    unfolding r using on_control_RemoveSession_wf [OF wf r] by simp
  show "dom (fmlookup (u_routes s)) = ran (fmlookup (u_sessions s))"
    using wf unfolding pooled_wf_def by (metis fmdom.rep_eq fmran.rep_eq)
  show "fmlookup (u_routes (control_add rt s i u t)) v = (if v = u then Some t else fmlookup (u_routes s) v)"
    if "v \<in> ran (fmlookup (u_sessions (control_add rt s i u t)))"
    using that unfolding a fst_conv ran_sessions defs(1,3) given_up_def by simp
  show "fmlookup (u_routes (control_remove rt s i)) v = fmlookup (u_routes s) v"
    if "v \<in> ran (fmlookup (u_sessions (control_remove rt s i)))"
    using that unfolding r fst_conv ran_sessions defs(5,7) by simp
qed

text \<open>The other events leave the table alone.\<close>

lemma route_afresh_table:
  assumes "route_afresh s data addr tx alloc send = Ret (s', effs)"
  shows "u_routes s' = u_routes s \<and> u_sessions s' = u_sessions s"
  using assms by (cases rule: route_afresh_cases) simp_all

lemma on_datagram_table:
  assumes "on_datagram s data addr tx known alloc send = Ret (s', effs)"
  shows "u_routes s' = u_routes s \<and> u_sessions s' = u_sessions s"
  using assms by (cases rule: on_datagram_cases) (auto dest: route_afresh_table)

fun op_of :: "PooledUdpMsg \<Rightarrow> (string, string, SocketAddr) route_op" where
  "op_of (AddRoute i u t rt) = Add i u t"
| "op_of (RemoveSession i rt) = Remove i"

definition route_history :: "pooled_event list \<Rightarrow> (string, string, SocketAddr) route_op list" where
  "route_history es = map op_of (concat (map control_of es))"

lemma control_implements:
  assumes "pooled_table.implements ops s" "on_control s msg = (s', effs)"
  shows "pooled_table.implements (ops @ [op_of msg]) s'"
  using assms pooled_table.implements_add [OF assms(1)] pooled_table.implements_remove [OF assms(1)]
  by (cases msg) (metis fst_conv op_of.simps)+

lemma pooled_step_implements:
  assumes "PooledUdpEndpoint_step tx s e = (s', outs, ctl)" "pooled_table.implements ops s"
  shows "pooled_table.implements (ops @ map op_of (control_of e)) s'"
  using assms(1)
proof (cases rule: pooled_step_cases)
  case (control msg)
  then show ?thesis using control_implements [OF assms(2)] by simp
next
  case datagram
  then show ?thesis
    using assms(2) on_datagram_table [OF datagram(2)] on_datagram_wf [OF _ datagram(2)]
    by (simp add: pooled_table.implements_def)
next
  case ended
  then show ?thesis
    using assms(2) by (simp add: pooled_table.implements_def pooled_wf_drop)
qed (use assms(2) in simp_all)

text \<open>
  C5. The route table is its history: in every reachable state a session is known with the ufrag
  of its last \<open>AddRoute\<close> unless it was removed since, and an ufrag is routed exactly while a known
  session uses it, to the target it was given last.
\<close>

theorem pooled_routes_refine:
  assumes "pooled_reachable tx sock es s"
  shows "fmlookup (u_sessions s) = session_log (route_history es) \<and>
    fmlookup (u_routes s) = route_log (route_history es)"
proof -
  from assms have "pooled_table.implements (route_history es) s"
  proof (induction rule: pooled_reachable.induct)
    case reachable_new
    then show ?case
      using pooled_table.implements_new [OF pooled_wf_new]
      by (simp add: route_history_def PooledUdpEndpoint_new_def fmempty.rep_eq)
  next
    case (reachable_step es s e s' outs)
    then show ?case
      using pooled_step_implements by (simp add: route_history_def)
  qed
  then show ?thesis
    by (simp add: pooled_table.implements_def)
qed

section \<open>Sessions come and go\<close>

text \<open>
  C13. A session that ends does not disturb the others: every other session keeps its ufrag, its
  route and every client registered under that ufrag, also when it shares the ufrag with the
  session that ended.
\<close>

theorem remove_session_keeps_others:
  assumes "on_control s (RemoveSession i rt) = (s', effs)"
    and "j \<noteq> i" and "fmlookup (u_sessions s) j = Some u"
  shows "fmlookup (u_sessions s') j = Some u \<and> fmlookup (u_routes s') u = fmlookup (u_routes s) u \<and>
    fmfilter (\<lambda>a. \<exists>c. fmlookup (u_clients s) a = Some c \<and> p_ufrag c = u) (u_clients s') =
      fmfilter (\<lambda>a. \<exists>c. fmlookup (u_clients s) a = Some c \<and> p_ufrag c = u) (u_clients s)"
proof -
  note rem = on_control_RemoveSession [OF assms(1)]
  have used: "hm_any_value (fmdrop i (u_sessions s)) u"
    using assms(2,3) by (auto simp: hm_any_value_iff)
  then show ?thesis
    using assms(2,3) rem(1,3)
    by (auto intro!: fmap_ext simp: rem(4) split: option.splits)
qed

text \<open>
  The last session of an ufrag takes everything with it: the route is gone, no client is
  registered under the ufrag any more, exactly the relays of those clients have been aborted, and
  the caller is told that the session was known.
\<close>

lemma remove_last_session:
  assumes "on_control s (RemoveSession i rt) = (s', effs)"
    and "fmlookup (u_sessions s) i = Some u"
    and "\<not> hm_any_value (fmdrop i (u_sessions s)) u"
  shows "fmlookup (u_routes s') u = None \<and>
    hm_retain (\<lambda>a c. p_ufrag c = u) (u_clients s') = fmempty \<and>
    aborted effs = {h_handler (p_handler c) | a c. fmlookup (u_clients s) a = Some c \<and> p_ufrag c = u} \<and>
    last effs = RespondFound rt True"
proof -
  note rem = on_control_RemoveSession [OF assms(1)]
  have "hm_retain (\<lambda>a c. p_ufrag c = u) (u_clients s') = fmempty"
    using assms(2,3) by (auto intro!: fmap_ext simp: rem(4) split: option.splits)
  moreover have "effs = [AbortRelays (pooled_tasks (hm_retain (\<lambda>_ c. p_ufrag c = u) (u_clients s))),
      RespondFound rt True]"
    using assms by (auto simp: forget_ufrag_if_unused_def drop_clients_def)
  moreover have "fset (pooled_tasks (hm_retain (\<lambda>_ c. p_ufrag c = u) (u_clients s))) =
      {h_handler (p_handler c) | a c. fmlookup (u_clients s) a = Some c \<and> p_ufrag c = u}"
    unfolding fset_pooled_tasks by (auto split: option.splits if_splits; metis)
  ultimately show ?thesis
    using assms(2,3) rem(3) by simp
qed

text \<open>
  An acknowledged route is in force: the session is known under the ufrag, the ufrag is routed
  to the new target, and every client still registered under it has a relay to that target (those
  of an earlier target are gone).
\<close>

lemma add_route_in_force:
  assumes "pooled_wf s" and "on_control s (AddRoute i u t rt) = (s', effs)"
  shows "pooled_wf s' \<and> fmlookup (u_sessions s') i = Some u \<and> fmlookup (u_routes s') u = Some t \<and>
    fmpred (\<lambda>a c. p_ufrag c = u \<longrightarrow> us_peer (h_socket (p_handler c)) = t) (u_clients s') \<and>
    last effs = RespondAdded rt"
proof -
  note add = on_control_AddRoute [OF assms(2)]
  have wf: "pooled_wf s'"
    by (rule on_control_AddRoute_wf [OF assms])
  have "us_peer (h_socket (p_handler c)) = t" if "fmlookup (u_clients s') a = Some c" "p_ufrag c = u" for a c
    using pooled_wf_client [OF wf that(1)] that(2) add(3) [of u] by (simp add: client_routed_def)
  moreover have "last effs = RespondAdded rt"
    using assms(2) by (auto simp: Let_def split: prod.splits)
  ultimately show ?thesis
    using wf add(1) add(3) [of u] by auto
qed

text \<open>
  C14. The shared socket does not die: no datagram, receive error, relay report or control message
  ends the task or makes it panic; it ends only when its handle is gone.
\<close>

theorem pooled_task_survives:
  "snd (snd (PooledUdpEndpoint_step tx s e)) = (if e = PooledControl None then Break else Continue)"
proof -
  obtain s' outs ctl where st: "PooledUdpEndpoint_step tx s e = (s', outs, ctl)"
    by (metis prod_cases3)
  have "ctl = (if e = PooledControl None then Break else Continue)"
    using st by (cases rule: pooled_step_cases) auto
  with st show ?thesis by simp
qed

text \<open>
  A late end report is harmless on a pooled socket: if the client's address is served by a relay
  whose channel is open, the report changes nothing.
\<close>

lemma pooled_stale_report_ignored:
  assumes "fmlookup (u_clients s) addr = Some c" and "\<not> is_closed (h_sender (p_handler c))"
  shows "PooledUdpEndpoint_step tx s (PooledClientRx (ClientEnded addr) is_closed) = (s, [], Continue)"
  using assms by simp

section \<open>The path of a client's datagrams\<close>

text \<open>
  A session \<open>sid\<close> whose ufrag \<open>u\<close> is routed to \<open>target\<close>, seen from an address that has no client under
  another ufrag.
\<close>

definition for_session :: "SocketAddr \<Rightarrow> string \<Rightarrow> string \<Rightarrow> SocketAddr \<Rightarrow> PooledUdpEndpoint \<Rightarrow> bool" where
  "for_session a sid u target s \<longleftrightarrow>
     pooled_wf s \<and> fmlookup (u_sessions s) sid = Some u \<and> fmlookup (u_routes s) u = Some target \<and>
     (\<forall>c. fmlookup (u_clients s) a = Some c \<longrightarrow> p_ufrag c = u)"

text \<open>
  What may happen to the socket meanwhile: anything, but that the session is removed or gets another
  ufrag, that the ufrag is routed elsewhere, and that the address shows another ufrag.
\<close>

fun keeps_session :: "SocketAddr \<Rightarrow> string \<Rightarrow> string \<Rightarrow> SocketAddr \<Rightarrow> pooled_event \<Rightarrow> bool" where
  "keeps_session a sid u target (PooledRecv (Inr (d, addr)) known alloc send) \<longleftrightarrow>
     addr = a \<longrightarrow> (\<forall>v. local_ufrag (recv_buf d) = Ret (Some v) \<longrightarrow> v = u)"
| "keeps_session a sid u target (PooledControl (Some (AddRoute sid' v t rt))) \<longleftrightarrow>
     (v = u \<longrightarrow> t = target) \<and> (sid' = sid \<longrightarrow> v = u)"
| "keeps_session a sid u target (PooledControl (Some (RemoveSession sid' rt))) \<longleftrightarrow> sid' \<noteq> sid"
| "keeps_session a sid u target _ \<longleftrightarrow> True"

text \<open>What leaves a registered client alone: its own datagrams can be sent, and no end of its relay is reported.\<close>

fun undisturbed :: "SocketAddr \<Rightarrow> pooled_event \<Rightarrow> bool" where
  "undisturbed a (PooledRecv (Inr (d, addr)) known alloc send) \<longleftrightarrow> addr = a \<longrightarrow> known = quiet_send"
| "undisturbed a (PooledClientRx (ClientEnded addr) is_closed) \<longleftrightarrow> addr \<noteq> a"
| "undisturbed a _ \<longleftrightarrow> True"

lemma control_keeps_session:
  assumes "on_control s msg = (s', effs)" "for_session a sid u target s"
    and "keeps_session a sid u target (PooledControl (Some msg))"
  shows "fmlookup (u_sessions s') sid = Some u" "fmlookup (u_routes s') u = Some target"
    "fmlookup (u_clients s') a = fmlookup (u_clients s) a"
proof -
  have u: "fmlookup (u_sessions s) sid = Some u" "fmlookup (u_routes s) u = Some target"
    "\<And>c. fmlookup (u_clients s) a = Some c \<Longrightarrow> p_ufrag c = u"
    using assms(2) by (simp_all add: for_session_def)
  have "fmlookup (u_sessions s') sid = Some u \<and> fmlookup (u_routes s') u = Some target \<and>
    fmlookup (u_clients s') a = fmlookup (u_clients s) a"
  proof (cases msg)
    case (AddRoute sid' v t rt)
    note st = assms(1) [unfolded AddRoute]
    have "\<not> given_up s sid' v u"
      using u(1) assms(3) by (auto simp: AddRoute given_up_def hm_any_value_iff)
    then show ?thesis
      using u assms(3) on_control_AddRoute(1) [OF st] on_control_AddRoute(3,4) [OF st]
      by (auto simp: AddRoute rerouted_def split: option.splits)
  next
    case (RemoveSession sid' rt)
    note st = assms(1) [unfolded RemoveSession]
    have "hm_any_value (fmdrop sid' (u_sessions s)) u"
      using u(1) assms(3) by (auto simp: RemoveSession hm_any_value_iff)
    then show ?thesis
      using u assms(3) on_control_RemoveSession(1) [OF st] on_control_RemoveSession(3,4) [OF st]
      by (auto simp: RemoveSession split: option.splits)
  qed
  then show "fmlookup (u_sessions s') sid = Some u" "fmlookup (u_routes s') u = Some target"
    "fmlookup (u_clients s') a = fmlookup (u_clients s) a" by simp_all
qed

lemma step_for_session:
  assumes fs: "for_session a sid u target s" and st: "PooledUdpEndpoint_step tx s e = (s', outs, ctl)"
    and keeps: "keeps_session a sid u target e"
  shows "for_session a sid u target s'"
proof -
  have wf: "pooled_wf s'" using fs pooled_step_wf [OF _ st] by (simp add: for_session_def)
  have "fmlookup (u_sessions s') sid = Some u \<and> fmlookup (u_routes s') u = Some target"
    using st
  proof (cases rule: pooled_step_cases)
    case datagram
    with on_datagram_table [OF datagram(2)] fs show ?thesis by (simp add: for_session_def)
  next
    case control
    with control_keeps_session(1,2) [OF control(2) fs] keeps show ?thesis by simp
  qed (use fs in \<open>auto simp: for_session_def\<close>)
  moreover have "p_ufrag c = u" if c: "fmlookup (u_clients s') a = Some c" for c
  proof -
    from pooled_step_client [OF st c] consider "fmlookup (u_clients s) a = Some c" | "shows_ufrag a (p_ufrag c) e" by blast
    then show ?thesis
    proof cases
      case 1
      with fs show ?thesis by (simp add: for_session_def)
    next
      case 2
      with keeps show ?thesis by (cases "(a, p_ufrag c, e)" rule: shows_ufrag.cases) auto
    qed
  qed
  ultimately show ?thesis using wf by (simp add: for_session_def)
qed

lemma step_undisturbed:
  assumes "for_session a sid u target s" "PooledUdpEndpoint_step tx s e = (s', outs, ctl)"
    and "keeps_session a sid u target e" "undisturbed a e" "a |\<in>| fmdom (u_clients s)"
  shows "a |\<in>| fmdom (u_clients s')"
  using assms(2)
proof (cases rule: pooled_step_cases)
  case (datagram d addr known alloc send)
  show ?thesis
  proof (cases "addr = a")
    case True
    with assms(4,5) datagram show ?thesis
      by (auto simp: on_datagram_def ProxyClient_send_def fmlookup_dom_iff)
  next
    case False
    from datagram(2) have "fmlookup (u_clients s') a = fmlookup (u_clients s) a"
    proof (cases rule: on_datagram_cases)
      case stale
      from stale(3) show ?thesis by (cases rule: route_afresh_cases) (use False in auto)
    next
      case unknown
      from unknown(2) show ?thesis by (cases rule: route_afresh_cases) (use False in auto)
    qed simp
    with assms(5) show ?thesis by (simp add: fmlookup_dom_iff)
  qed
next
  case (control msg)
  with control_keeps_session(3) [OF control(2) assms(1)] assms(3,5) show ?thesis by (simp add: fmlookup_dom_iff)
qed (use assms(4,5) in auto)

lemma run_for_session:
  assumes "PooledUdpEndpoint_run tx s es = (s', outs, Continue)" "list_all (keeps_session a sid u target) es"
    and "for_session a sid u target s"
  shows "for_session a sid u target s' \<and>
    (list_all (undisturbed a) es \<longrightarrow> a |\<in>| fmdom (u_clients s) \<longrightarrow> a |\<in>| fmdom (u_clients s'))"
  using assms
proof (induction es arbitrary: s outs)
  case Nil
  then show ?case by (simp add: PooledUdpEndpoint_run_def)
next
  case (Cons e es)
  then obtain s1 outs1 outs2 where st: "PooledUdpEndpoint_step tx s e = (s1, outs1, Continue)"
    "PooledUdpEndpoint_run tx s1 es = (s', outs2, Continue)"
    by (auto simp: PooledUdpEndpoint_run_def split: prod.splits loop_ctl.splits)
  have "for_session a sid u target s1"
    using step_for_session [OF Cons.prems(3) st(1)] Cons.prems(2) by simp
  with Cons.IH [OF st(2)] step_undisturbed [OF Cons.prems(3) st(1)] Cons.prems(2) show ?case by simp
qed

text \<open>A datagram that shows the ufrag, and any datagram of a registered client, goes to the target once.\<close>

lemma session_datagram_sent:
  assumes fs: "for_session a sid u target s"
    and "local_ufrag (recv_buf d) = Ret (Some u) \<and> al = Connected sk ch tid \<and> send = quiet_send \<or>
      a |\<in>| fmdom (u_clients s)"
  shows "\<exists>s' outs. PooledUdpEndpoint_step tx s (PooledRecv (Inr (d, a)) quiet_send al send) = (s', outs, Continue) \<and>
    to_peers outs = [(target, recv_buf d)] \<and> a |\<in>| fmdom (u_clients s')"
proof (cases "fmlookup (u_clients s) a")
  case None
  with assms have "local_ufrag (recv_buf d) = Ret (Some u)" "al = Connected sk ch tid" "send = quiet_send"
    "fmlookup (u_routes s) u = Some target"
    by (auto simp: for_session_def fmlookup_dom_iff)
  with None show ?thesis
    by (simp add: on_datagram_def route_afresh_def datagram_route_def allocate_handler_def
        ProxyClient_new_def ProxyClient_send_def Let_def)
next
  case (Some c)
  with fs pooled_wf_client [of s a c] have "us_peer (h_socket (p_handler c)) = target"
    by (simp add: for_session_def client_routed_def)
  with Some show ?thesis
    by (simp add: on_datagram_def ProxyClient_send_def fmlookup_dom_iff)
qed

section \<open>A concrete session\<close>

text \<open>
  One session with ufrag \<open>u\<close> on socket 1, a client that sends a binding request for it, and the
  states before and after.  The theorems above are applied to this run.
\<close>

abbreviation demo_route :: pooled_event where
  "demo_route \<equiv> PooledControl (Some (AddRoute ''s1'' ''u'' (V4 1 80) 7))"

abbreviation demo_binding :: pooled_event where
  "demo_binding \<equiv> PooledRecv (Inr (binding_request ''u:r'', V4 9 9)) quiet_send (Connected 2 3 4) quiet_send"

abbreviation demo_routed :: PooledUdpEndpoint where
  "demo_routed \<equiv> \<lparr>u_udp_socket = 1, u_routes = fmupd ''u'' (V4 1 80) fmempty,
     u_sessions = fmupd ''s1'' ''u'' fmempty, u_clients = fmempty\<rparr>"

abbreviation demo_client :: PooledClient where
  "demo_client \<equiv> \<lparr>p_handler = \<lparr>h_socket = \<lparr>us_id = 2, us_peer = V4 1 80\<rparr>, h_sender = 3, h_handler = 4\<rparr>,
     p_ufrag = ''u''\<rparr>"

abbreviation demo_relayed :: PooledUdpEndpoint where
  "demo_relayed \<equiv> demo_routed\<lparr>u_clients := fmupd (V4 9 9) demo_client fmempty\<rparr>"

lemma demo_request:
  "recv_buf (binding_request ''u:r'') = binding_request ''u:r''"
  "local_ufrag (binding_request ''u:r'') = Ret (Some ''u'')"
proof -
  have "utf8_valid (as_bytes ''u:r'')"
    by (simp add: as_bytes_def)
  then show "local_ufrag (binding_request ''u:r'') = Ret (Some ''u'')"
    using local_ufrag_request [of "''u:r''"] by simp
  show "recv_buf (binding_request ''u:r'') = binding_request ''u:r''"
    by (rule recv_buf_id) (simp add: length_binding_request)
qed

lemma demo_step_route:
  "PooledUdpEndpoint_step 5 (fst (PooledUdpEndpoint_new 1)) demo_route = (demo_routed, [RespondAdded 7], Continue)"
  by (simp add: PooledUdpEndpoint_new_def Let_def)

lemma demo_step_binding:
  "PooledUdpEndpoint_step 5 demo_routed demo_binding =
     (demo_relayed,
      [Incr IN_CLIENT_UDP_MESSAGE, Incr OUT_UDP_SOCKET_COUNTER,
       SpawnRelay 4 \<lparr>c_socket = \<lparr>us_id = 2, us_peer = V4 1 80\<rparr>, c_target_socket = 1, c_addr = V4 9 9,
         c_msg_tx = 5, c_control = 3\<rparr>,
       SendDatagram \<lparr>us_id = 2, us_peer = V4 1 80\<rparr> (binding_request ''u:r''), ChanSend 3 DataSent],
      Continue)"
  by (simp add: demo_request on_datagram_def route_afresh_def datagram_route_def allocate_handler_def
      ProxyClient_new_def ProxyClient_send_def Let_def)

lemma demo_reachable: "pooled_reachable 5 1 [demo_route] demo_routed"
  using reachable_step [OF reachable_new demo_step_route] by simp

lemma demo_relayed_reachable: "pooled_reachable 5 1 [demo_route, demo_binding] demo_relayed"
  using reachable_step [OF demo_reachable demo_step_binding] by simp

abbreviation demo_relay :: ProxyClient where
  "demo_relay \<equiv> \<lparr>c_socket = \<lparr>us_id = 2, us_peer = V4 1 80\<rparr>, c_target_socket = 1, c_addr = V4 9 9,
     c_msg_tx = 5, c_control = 3\<rparr>"

lemma demo_system:
  "sys_reachable (pooled_host 5) (fst (PooledUdpEndpoint_new 1))
     \<lparr>y_host = Some demo_relayed, y_relays = fmupd 4 demo_relay fmempty, y_reports = []\<rparr>"
proof -
  let ?H = "pooled_host 5" and ?y0 = "sys_new (fst (PooledUdpEndpoint_new 1))"
  let ?y1 = "\<lparr>y_host = Some demo_routed, y_relays = fmempty, y_reports = []\<rparr>"
  have "takes ?H ?y0 (fst (PooledUdpEndpoint_new 1)) demo_route (y_reports ?y0)"
    by (rule takes_own) simp_all
  then have one: "sys_step ?H ?y0 ?y1"
    using sys_turn [of ?y0 "fst (PooledUdpEndpoint_new 1)" ?H demo_route "y_reports ?y0" demo_routed] demo_step_route
    by (simp add: sys_new_def del: PooledUdpEndpoint_step.simps)
  have "takes ?H ?y1 demo_routed demo_binding (y_reports ?y1)"
    by (rule takes_own) (simp_all add: chan_closed_def)
  then have two: "sys_step ?H ?y1 \<lparr>y_host = Some demo_relayed, y_relays = fmupd 4 demo_relay fmempty, y_reports = []\<rparr>"
    using sys_turn [of ?y1 demo_routed ?H demo_binding "y_reports ?y1" demo_relayed] demo_step_binding
    by (simp del: PooledUdpEndpoint_step.simps)
  show ?thesis
    by (rule sys_next [OF sys_next [OF sys_init one] two])
qed

theorem pooled_relays_serve_routes_witness:
  "fmlookup (u_routes demo_relayed) ''u'' = Some (us_peer (c_socket demo_relay)) \<and>
   pooled_tasks (u_clients demo_relayed) = {|4|}"
proof -
  from pooled_relays_serve_routes [OF demo_system] have
    "\<forall>t r. fmlookup (fmupd 4 demo_relay fmempty) t = Some r \<longrightarrow>
      (\<exists>s c i. Some demo_relayed = Some s \<and> fmlookup (u_clients s) (c_addr r) = Some c \<and> h_handler (p_handler c) = t \<and>
        fmlookup (u_sessions s) i = Some (p_ufrag c) \<and>
        fmlookup (u_routes s) (p_ufrag c) = Some (us_peer (c_socket r)))"
    and "pooled_tasks (u_clients demo_relayed) = fmdom (fmupd 4 demo_relay fmempty)"
    by simp_all
  from this(1) [rule_format, of 4 demo_relay] this(2) show ?thesis by simp
qed

theorem pooled_isolation_witness:
  "list_ex (shows_ufrag (V4 9 9) ''u'') ([demo_route] @ [demo_binding]) \<and>
   fmlookup (u_routes demo_routed) ''u'' = Some (V4 1 80)"
proof -
  have "SendDatagram \<lparr>us_id = 2, us_peer = V4 1 80\<rparr> (binding_request ''u:r'') \<in>
      set (fst (snd (PooledUdpEndpoint_step 5 demo_routed demo_binding)))"
    unfolding demo_step_binding by simp
  then show ?thesis
    using pooled_isolation [OF demo_reachable demo_step_binding,
        of "\<lparr>us_id = 2, us_peer = V4 1 80\<rparr>" "binding_request ''u:r''"]
    by (auto split: if_splits)
qed

lemma unrouted_datagram_dropped_witness:
  "PooledUdpEndpoint_step 5 demo_routed (PooledRecv (Inr ([0x80, 0x60], V4 8 8)) quiet_send (BindErr []) quiet_send) =
     (demo_routed, [Incr IN_CLIENT_UDP_MESSAGE, Incr UNROUTED_POOLED_UDP_MESSAGE], Continue)"
proof (rule unrouted_datagram_dropped)
  have "local_ufrag (recv_buf [0x80, 0x60]) = Ret None"
    by (simp add: recv_buf_id local_ufrag_short)
  then show "\<forall>u. local_ufrag (recv_buf [0x80, 0x60]) = Ret (Some u) \<longrightarrow> fmlookup (u_routes demo_routed) u = None"
    by simp
qed simp

lemma pooled_no_relay_leak_witness:
  "\<exists>s outs. PooledUdpEndpoint_run 5 (fst (PooledUdpEndpoint_new 1)) [demo_route, demo_binding, PooledControl None] =
     (s, outs, Break) \<and> 4 \<in> spawned outs \<and> 4 \<in> aborted outs"
proof -
  obtain s outs ctl where
    run: "PooledUdpEndpoint_run 5 (fst (PooledUdpEndpoint_new 1)) [demo_route, demo_binding, PooledControl None] =
      (s, outs, ctl)"
    by (metis prod_cases3)
  then have "ctl = Break" "4 \<in> spawned outs"
    unfolding PooledUdpEndpoint_run_def run_loop.simps demo_step_route demo_step_binding prod.case loop_ctl.case
    by auto
  then show ?thesis
    using run pooled_no_relay_leak [OF run] by auto
qed

theorem pooled_routes_refine_witness:
  "session_log (route_history [demo_route, demo_binding]) = [''s1'' \<mapsto> ''u''] \<and>
   route_log (route_history [demo_route, demo_binding]) = [''u'' \<mapsto> V4 1 80]"
  using pooled_routes_refine [OF demo_relayed_reachable] by (simp add: fmupd.rep_eq fmempty.rep_eq map_upd_def)

abbreviation demo_shared :: PooledUdpEndpoint where
  "demo_shared \<equiv> demo_relayed\<lparr>u_sessions := fmupd ''s2'' ''u'' (fmupd ''s1'' ''u'' fmempty)\<rparr>"

theorem remove_session_keeps_others_witness:
  "\<exists>s' effs. on_control demo_shared (RemoveSession ''s1'' 8) = (s', effs) \<and>
     fmlookup (u_sessions s') ''s2'' = Some ''u'' \<and> fmlookup (u_routes s') ''u'' = Some (V4 1 80)"
proof -
  obtain s' effs where rem: "on_control demo_shared (RemoveSession ''s1'' 8) = (s', effs)"
    by fastforce
  have "''s2'' \<noteq> ''s1''" "fmlookup (u_sessions demo_shared) ''s2'' = Some ''u''"
    "fmlookup (u_routes demo_shared) ''u'' = Some (V4 1 80)"
    by simp_all
  with rem remove_session_keeps_others [OF rem this(1,2)] show ?thesis by metis
qed

lemma remove_last_session_witness:
  "\<exists>s' effs. on_control demo_relayed (RemoveSession ''s1'' 8) = (s', effs) \<and>
     fmlookup (u_routes s') ''u'' = None \<and> 4 \<in> aborted effs"
proof -
  obtain s' effs where rem: "on_control demo_relayed (RemoveSession ''s1'' 8) = (s', effs)"
    by fastforce
  have "fmlookup (u_sessions demo_relayed) ''s1'' = Some ''u''"
    "\<not> hm_any_value (fmdrop ''s1'' (u_sessions demo_relayed)) ''u''"
    by (simp_all add: hm_any_value_iff)
  note last = remove_last_session [OF rem this]
  moreover have "4 \<in> {h_handler (p_handler c) | a c. fmlookup (u_clients demo_relayed) a = Some c \<and> p_ufrag c = ''u''}"
    by (auto intro!: exI [of _ demo_client] exI [of _ "V4 9 9"])
  ultimately show ?thesis using rem by metis
qed

lemma add_route_in_force_witness:
  "\<exists>s' effs. on_control demo_relayed (AddRoute ''s2'' ''u'' (V4 2 80) 8) = (s', effs) \<and>
     fmlookup (u_routes s') ''u'' = Some (V4 2 80) \<and> last effs = RespondAdded 8"
proof -
  obtain s' effs where add: "on_control demo_relayed (AddRoute ''s2'' ''u'' (V4 2 80) 8) = (s', effs)"
    by fastforce
  with add_route_in_force [OF reachable_wf [OF demo_relayed_reachable] add] show ?thesis by blast
qed

end
