(* ===== verification/Channel_Progress.thy ===== *)
theory Channel_Progress
  imports Udp_Pooled "HOL-Library.Sublist"
begin

text \<open>
  The channels between a UDP task and its relays are bounded: each relay has a control channel of ten
  messages, and all relays report on one channel of ten (\<^verbatim>\<open>udp_client.rs\<close> 73 and 202,
  \<^verbatim>\<open>udp_pooled.rs\<close> 71).  A full channel makes the sender wait, and a task and its relays send to each
  other.  This theory refines the turns of the tasks to single effects, with the sends that may
  wait, and shows that the wait always ends: every turn and every relay that is ending can be
  brought to its end by steps of the tasks alone.

  The reason is the order in \<open>ProxyClient_finish\<close>: a relay that waits to report has closed its
  control channel before, so nobody waits for it.  The manager never waits for an endpoint, so
  a message to it counts as an effect that completes.
\<close>

section \<open>Tasks between two awaits\<close>

definition CHANNEL_CAP :: nat where
  "CHANNEL_CAP = 10"

text \<open>A relay in its loop, or behind it with the effects it still has to perform.\<close>

datatype relay_pc = Looping ProxyClient | Ending ProxyClient "udp_effect list"

text \<open>
  A host that waits in \<open>select!\<close>; or in a turn from state \<open>s\<close> on event \<open>e\<close>, with the effects it has
  performed and those to come; or gone.
\<close>

datatype ('s, 'e) host_pc = Selecting 's | InTurn 's 'e "udp_effect list" "udp_effect list" | Gone

record ('s, 'e) chan_sys =
  x_host :: "('s, 'e) host_pc"
  x_relays :: "(task_id, relay_pc) fmap"
  x_control :: "chan_id \<Rightarrow> ProxyClientMsg list"
  x_reports :: "SocketAddr list"

definition turn_effects :: "('s, 'e) host \<Rightarrow> 's \<Rightarrow> 'e \<Rightarrow> udp_effect list" where
  "turn_effects H s e =
     (case hs_step H s e of (s', outs, c) \<Rightarrow> outs @ (if c = Break then hs_finish H s' else []))"

definition turn_result :: "('s, 'e) host \<Rightarrow> 's \<Rightarrow> 'e \<Rightarrow> ('s, 'e) host_pc" where
  "turn_result H s e = (case hs_step H s e of (s', outs, c) \<Rightarrow> if c = Break then Gone else Selecting s')"

text \<open>A control channel is open as long as a relay holds its receiver and has not closed it.\<close>

fun holds :: "chan_id \<Rightarrow> relay_pc \<Rightarrow> bool" where
  "holds ch (Looping r) \<longleftrightarrow> c_control r = ch"
| "holds ch (Ending r effs) \<longleftrightarrow> c_control r = ch \<and> ChanClose ch \<in> set effs"

definition holders :: "(task_id, relay_pc) fmap \<Rightarrow> chan_id \<Rightarrow> task_id set" where
  "holders relays ch = {t. \<exists>p. fmlookup relays t = Some p \<and> holds ch p}"

abbreviation open_chan :: "('s, 'e) chan_sys \<Rightarrow> chan_id \<Rightarrow> bool" where
  "open_chan x ch \<equiv> holders (x_relays x) ch \<noteq> {}"

fun is_send :: "udp_effect \<Rightarrow> bool" where
  "is_send (ChanSend ch m) = True"
| "is_send _ = False"

fun spawn_abort :: "(task_id, relay_pc) fmap \<Rightarrow> udp_effect \<Rightarrow> (task_id, relay_pc) fmap" where
  "spawn_abort relays (SpawnRelay t c) = fmupd t (Looping c) relays"
| "spawn_abort relays (AbortRelays ts) = fmfilter (\<lambda>t. t |\<notin>| ts) relays"
| "spawn_abort relays _ = relays"

definition relay_after :: "ProxyClient \<Rightarrow> loop_ctl \<Rightarrow> relay_pc" where
  "relay_after r c = (if c = Break then Ending r (ProxyClient_finish r) else Looping r)"

section \<open>Steps\<close>

text \<open>
  The steps the tasks make without the network and the clock.  A send on a full channel is not
  enabled; one on a closed channel fails, and the turn goes on as the one of an event \<open>e'\<close> with that
  result (\<open>fails e e'\<close>).
\<close>

inductive task_step :: "('s, 'e) host \<Rightarrow> ('e \<Rightarrow> 'e \<Rightarrow> bool) \<Rightarrow> ('s, 'e) chan_sys \<Rightarrow> ('s, 'e) chan_sys \<Rightarrow> bool"
  for H fails where
  host_effect: "x_host x = InTurn s e pre (y # post) \<Longrightarrow> \<not> is_send y \<Longrightarrow>
     task_step H fails x (x\<lparr>x_host := InTurn s e (pre @ [y]) post, x_relays := spawn_abort (x_relays x) y\<rparr>)"
| host_send: "x_host x = InTurn s e pre (ChanSend ch m # post) \<Longrightarrow> open_chan x ch \<Longrightarrow>
     length (x_control x ch) < CHANNEL_CAP \<Longrightarrow>
     task_step H fails x (x\<lparr>x_host := InTurn s e (pre @ [ChanSend ch m]) post,
       x_control := (x_control x)(ch := x_control x ch @ [m])\<rparr>)"
| host_send_fails: "x_host x = InTurn s e pre (ChanSend ch m # post) \<Longrightarrow> \<not> open_chan x ch \<Longrightarrow>
     fails e e' \<Longrightarrow> turn_effects H s e' = pre @ post' \<Longrightarrow>
     task_step H fails x (x\<lparr>x_host := InTurn s e' pre post'\<rparr>)"
| host_done: "x_host x = InTurn s e pre [] \<Longrightarrow> task_step H fails x (x\<lparr>x_host := turn_result H s e\<rparr>)"
| host_report: "x_host x = Selecting s \<Longrightarrow> x_reports x = a # rest \<Longrightarrow> e = hs_report H a (\<lambda>ch. \<not> open_chan x ch) \<Longrightarrow>
     task_step H fails x (x\<lparr>x_host := InTurn s e [] (turn_effects H s e), x_reports := rest\<rparr>)"
| relay_control: "fmlookup (x_relays x) t = Some (Looping r) \<Longrightarrow> x_control x (c_control r) = m # q \<Longrightarrow>
     ProxyClient_step r (RelayControl (Some m)) = (r', outs, c) \<Longrightarrow>
     task_step H fails x (x\<lparr>x_relays := fmupd t (relay_after r' c) (x_relays x),
       x_control := (x_control x)(c_control r := q)\<rparr>)"
| relay_close: "fmlookup (x_relays x) t = Some (Ending r (ChanClose ch # effs)) \<Longrightarrow>
     task_step H fails x (x\<lparr>x_relays := fmupd t (Ending r effs) (x_relays x)\<rparr>)"
| relay_report: "fmlookup (x_relays x) t = Some (Ending r (ChanSend ch (ClientEnded a) # effs)) \<Longrightarrow>
     x_host x = Gone \<or> length (x_reports x) < CHANNEL_CAP \<Longrightarrow>
     task_step H fails x (x\<lparr>x_relays := fmupd t (Ending r effs) (x_relays x),
       x_reports := (if x_host x = Gone then x_reports x else x_reports x @ [a])\<rparr>)"
| relay_done: "fmlookup (x_relays x) t = Some (Ending r []) \<Longrightarrow>
     task_step H fails x (x\<lparr>x_relays := fmdrop t (x_relays x)\<rparr>)"

text \<open>What comes from outside: an event of the host, an event of a relay, and the host's task being aborted.\<close>

inductive outside_step :: "('s, 'e) host \<Rightarrow> ('s, 'e) chan_sys \<Rightarrow> ('s, 'e) chan_sys \<Rightarrow> bool" for H where
  host_event: "x_host x = Selecting s \<Longrightarrow> hs_own H e \<Longrightarrow>
     outside_step H x (x\<lparr>x_host := InTurn s e [] (turn_effects H s e)\<rparr>)"
| relay_event: "fmlookup (x_relays x) t = Some (Looping r) \<Longrightarrow> ProxyClient_step r e = (r', outs, c) \<Longrightarrow>
     outside_step H x (x\<lparr>x_relays := fmupd t (relay_after r' c) (x_relays x)\<rparr>)"
| host_aborted: "outside_step H x (x\<lparr>x_host := Gone, x_relays := fmfilter P (x_relays x)\<rparr>)"

definition chan_new :: "'s \<Rightarrow> ('s, 'e) chan_sys" where
  "chan_new s = \<lparr>x_host = Selecting s, x_relays = fmempty, x_control = (\<lambda>_. []), x_reports = []\<rparr>"

inductive chan_reachable :: "('s, 'e) host \<Rightarrow> ('e \<Rightarrow> 'e \<Rightarrow> bool) \<Rightarrow> 's \<Rightarrow> ('s, 'e) chan_sys \<Rightarrow> bool" for H fails s0 where
  chan_init: "chan_reachable H fails s0 (chan_new s0)"
| chan_task: "chan_reachable H fails s0 x \<Longrightarrow> task_step H fails x x' \<Longrightarrow> chan_reachable H fails s0 x'"
| chan_outside: "chan_reachable H fails s0 x \<Longrightarrow> outside_step H x x' \<Longrightarrow> chan_reachable H fails s0 x'"

section \<open>The invariant\<close>

definition chan_ok :: "('s, 'e) host \<Rightarrow> ('s, 'e) chan_sys \<Rightarrow> bool" where
  "chan_ok H x \<longleftrightarrow>
     (\<forall>t r effs. fmlookup (x_relays x) t = Some (Ending r effs) \<longrightarrow> suffix effs (ProxyClient_finish r)) \<and>
     (\<forall>s e pre post. x_host x = InTurn s e pre post \<longrightarrow> turn_effects H s e = pre @ post) \<and>
     length (x_reports x) \<le> CHANNEL_CAP"

lemma suffix_tlD: "suffix (y # ys) zs \<Longrightarrow> suffix ys zs"
  by (auto simp: suffix_def)

lemma relay_after_suffix: "relay_after r c = Ending r' effs \<Longrightarrow> suffix effs (ProxyClient_finish r')"
  by (auto simp: relay_after_def split: if_splits)

lemma spawn_abort_ending:
  "fmlookup (spawn_abort relays y) t = Some (Ending r effs) \<Longrightarrow> fmlookup relays t = Some (Ending r effs)"
  by (cases y) (auto split: if_splits)

lemma turn_result_not_turn [simp]: "turn_result H s e \<noteq> InTurn s' e' pre post"
  by (auto simp: turn_result_def split: prod.splits)

lemma task_step_ok:
  assumes "task_step H fails x x'" "chan_ok H x"
  shows "chan_ok H x'"
  using assms
proof (induction rule: task_step.induct)
  case (host_effect x s e pre y post)
  then show ?case by (auto simp: chan_ok_def dest: spawn_abort_ending)
next
  case (relay_control x t r m q r' outs c)
  then show ?case by (auto simp: chan_ok_def dest: relay_after_suffix split: if_splits)
next
  case (relay_close x t r ch effs)
  then show ?case by (auto simp: chan_ok_def dest: suffix_tlD split: if_splits)
next
  case (relay_report x t r ch a effs)
  then show ?case by (auto simp: chan_ok_def dest: suffix_tlD split: if_splits)
qed (auto simp: chan_ok_def split: if_splits)

lemma outside_step_ok:
  assumes "outside_step H x x'" "chan_ok H x"
  shows "chan_ok H x'"
  using assms
proof (induction rule: outside_step.induct)
  case (relay_event x t r e r' outs c)
  then show ?case by (auto simp: chan_ok_def dest: relay_after_suffix split: if_splits)
qed (auto simp: chan_ok_def split: if_splits)

lemma chan_reachable_ok: "chan_reachable H fails s0 x \<Longrightarrow> chan_ok H x"
proof (induction rule: chan_reachable.induct)
  case chan_init
  show ?case by (simp add: chan_ok_def chan_new_def)
qed (rule task_step_ok outside_step_ok; assumption)+

section \<open>No task waits for ever\<close>

text \<open>Nothing is left to do but to wait for the network and the clock.\<close>

definition at_rest :: "('s, 'e) chan_sys \<Rightarrow> bool" where
  "at_rest x \<longleftrightarrow>
     (\<forall>s e pre post. x_host x \<noteq> InTurn s e pre post) \<and>
     (\<forall>t r effs. fmlookup (x_relays x) t \<noteq> Some (Ending r effs)) \<and>
     (\<forall>t r. fmlookup (x_relays x) t = Some (Looping r) \<longrightarrow> x_control x (c_control r) = []) \<and>
     (x_host x = Gone \<or> x_reports x = [])"

text \<open>What a relay behind its loop has left to do.\<close>

lemma ending_cases:
  assumes "chan_ok H x" "fmlookup (x_relays x) t = Some (Ending r effs)"
  obtains (to_close) "effs = [ChanClose (c_control r), ChanSend (c_msg_tx r) (ClientEnded (c_addr r))]"
    | (to_report) "effs = [ChanSend (c_msg_tx r) (ClientEnded (c_addr r))]"
    | (to_go) "effs = []"
proof -
  from assms have "suffix effs (ProxyClient_finish r)"
    by (simp add: chan_ok_def)
  then show thesis
    using that by (auto simp: ProxyClient_finish_def suffix_Cons)
qed

text \<open>
  A relay that keeps a control channel open can move when the channel is full: it takes a message,
  or it closes the channel.
\<close>

lemma holder_moves:
  assumes ok: "chan_ok H x" and "t \<in> holders (x_relays x) ch" and "x_control x ch \<noteq> []"
  shows "\<exists>x'. task_step H fails x x'"
proof -
  from assms(2) obtain p where p: "fmlookup (x_relays x) t = Some p" "holds ch p"
    by (auto simp: holders_def)
  show ?thesis
  proof (cases p)
    case (Looping r)
    moreover obtain m q where "x_control x (c_control r) = m # q"
      using assms(3) p Looping by (auto simp: neq_Nil_conv)
    moreover obtain r' outs c where "ProxyClient_step r (RelayControl (Some m)) = (r', outs, c)"
      by (rule prod_cases3)
    ultimately show ?thesis
      using p(1) relay_control by blast
  next
    case (Ending r effs)
    with p have e: "fmlookup (x_relays x) t = Some (Ending r effs)" and "ChanClose ch \<in> set effs"
      by auto
    from ok e show ?thesis
    proof (cases rule: ending_cases)
      case to_close
      with e show ?thesis by (blast intro: relay_close)
    qed (use \<open>ChanClose ch \<in> set effs\<close> in auto)
  qed
qed

text \<open>A relay behind its loop can move unless the channel of reports is full.\<close>

lemma ending_moves:
  assumes "chan_ok H x" "fmlookup (x_relays x) t = Some (Ending r effs)"
    and "x_host x = Gone \<or> length (x_reports x) < CHANNEL_CAP"
  shows "\<exists>x'. task_step H fails x x'"
  using assms(1,2)
proof (cases rule: ending_cases)
  case to_close
  with assms(2) show ?thesis by (blast intro: relay_close)
next
  case to_report
  with assms(2,3) show ?thesis by (blast intro: relay_report)
next
  case to_go
  with assms(2) show ?thesis by (blast intro: relay_done)
qed

text \<open>
  The contract of a host: a turn whose send fails goes on as a turn of lower rank that did the same
  up to there, and the turn for a relay's report starts no relay and sends nothing.
\<close>

fun is_spawn :: "udp_effect \<Rightarrow> bool" where
  "is_spawn (SpawnRelay t c) = True"
| "is_spawn _ = False"

locale chan_host =
  fixes H :: "('s, 'e) host" and fails :: "'e \<Rightarrow> 'e \<Rightarrow> bool" and rank :: "'e \<Rightarrow> nat"
  assumes resend: "turn_effects H s e = pre @ ChanSend ch m # post \<Longrightarrow>
      \<exists>e' post'. fails e e' \<and> turn_effects H s e' = pre @ post'"
    and fails_rank: "fails e e' \<Longrightarrow> rank e' < rank e"
    and report_rank: "rank (hs_report H a closed) = 0"
    and report_quiet: "list_all (\<lambda>y. \<not> is_spawn y) (turn_effects H s (hs_report H a closed))"
begin

lemma host_moves:
  assumes ok: "chan_ok H x" and turn: "x_host x = InTurn s e pre post"
  shows "\<exists>x'. task_step H fails x x'"
proof (cases post)
  case Nil
  with turn show ?thesis by (blast intro: host_done)
next
  case (Cons y post')
  show ?thesis
  proof (cases "is_send y")
    case False
    with turn Cons show ?thesis by (blast intro: host_effect)
  next
    case True
    then obtain ch m where y: "y = ChanSend ch m" by (cases y) auto
    with turn Cons have here: "x_host x = InTurn s e pre (ChanSend ch m # post')" by simp
    consider (closed) "\<not> open_chan x ch" | (room) "open_chan x ch" "length (x_control x ch) < CHANNEL_CAP"
      | (full) "open_chan x ch" "x_control x ch \<noteq> []"
      by (fastforce simp: CHANNEL_CAP_def)
    then show ?thesis
    proof cases
      case closed
      from ok here have "turn_effects H s e = pre @ ChanSend ch m # post'"
        by (simp add: chan_ok_def)
      with resend show ?thesis
        using host_send_fails [OF here closed] by blast
    next
      case room
      with here show ?thesis by (blast intro: host_send)
    next
      case full
      with ok show ?thesis by (blast intro: holder_moves)
    qed
  qed
qed

theorem no_deadlock:
  assumes ok: "chan_ok H x" and stuck: "\<nexists>x'. task_step H fails x x'"
  shows "at_rest x"
proof -
  have idle: "x_host x \<noteq> InTurn s e pre post" for s e pre post
    using host_moves [OF ok] stuck by blast
  have taken: "x_host x = Gone \<or> x_reports x = []"
  proof (cases "x_host x")
    case (Selecting s)
    show ?thesis
    proof (cases "x_reports x")
      case (Cons a rest)
      from host_report [OF Selecting Cons refl, of H fails] stuck show ?thesis by blast
    qed simp
  qed (use idle in auto)
  then have room: "x_host x = Gone \<or> length (x_reports x) < CHANNEL_CAP"
    by (auto simp: CHANNEL_CAP_def)
  have "fmlookup (x_relays x) t \<noteq> Some (Ending r effs)" for t r effs
  proof
    assume "fmlookup (x_relays x) t = Some (Ending r effs)"
    from ending_moves [OF ok this room] stuck show False by simp
  qed
  moreover have "x_control x (c_control r) = []" if "fmlookup (x_relays x) t = Some (Looping r)" for t r
  proof (rule ccontr)
    assume "x_control x (c_control r) \<noteq> []"
    moreover have "t \<in> holders (x_relays x) (c_control r)"
      using that by (simp add: holders_def)
    ultimately show False
      using holder_moves [OF ok, of t "c_control r" fails] stuck by simp
  qed
  ultimately show ?thesis
    using idle taken unfolding at_rest_def by blast
qed

end

section \<open>The tasks come to rest\<close>

definition relay_sum :: "(relay_pc \<Rightarrow> nat) \<Rightarrow> (task_id, relay_pc) fmap \<Rightarrow> nat" where
  "relay_sum f relays = (\<Sum>t\<in>fset (fmdom relays). f (the (fmlookup relays t)))"

lemma relay_sum_split:
  assumes "fmlookup relays t = Some p"
  shows "relay_sum f relays = f p + relay_sum f (fmdrop t relays)"
proof -
  have "t \<in> fset (fmdom relays)" using assms by (auto simp: fmlookup_dom_iff)
  moreover have "relay_sum f (fmdrop t relays) = (\<Sum>u\<in>fset (fmdom relays) - {t}. f (the (fmlookup relays u)))"
    unfolding relay_sum_def by (rule sum.cong) auto
  ultimately show ?thesis
    using assms by (simp add: relay_sum_def sum.remove)
qed

lemma relay_sum_upd: "relay_sum f (fmupd t p relays) = f p + relay_sum f (fmdrop t relays)"
  using relay_sum_split [of "fmupd t p relays" t p f] by (simp add: fmdrop_fmupd_same)

lemma relay_sum_filter: "relay_sum f (fmfilter P relays) \<le> relay_sum f relays"
proof -
  have "relay_sum f (fmfilter P relays) =
      (\<Sum>t\<in>fset (fmdom (fmfilter P relays)). f (the (fmlookup relays t)))"
    unfolding relay_sum_def by (rule sum.cong) auto
  also have "\<dots> \<le> relay_sum f relays"
    unfolding relay_sum_def by (rule sum_mono2) auto
  finally show ?thesis .
qed

lemma relay_sum_mono: "(\<And>p. f p \<le> g p) \<Longrightarrow> relay_sum f relays \<le> relay_sum g relays"
  unfolding relay_sum_def by (rule sum_mono)

lemma spawn_abort_sum: "\<not> is_spawn y \<Longrightarrow> relay_sum f (spawn_abort relays y) \<le> relay_sum f relays"
  by (cases y) (auto intro: relay_sum_filter)

text \<open>The reports a relay will still send, the messages it still has to take, and the steps behind its loop.\<close>

fun to_report :: "relay_pc \<Rightarrow> nat" where
  "to_report (Looping r) = 1"
| "to_report (Ending r effs) = length (filter is_send effs)"

fun to_take :: "(chan_id \<Rightarrow> ProxyClientMsg list) \<Rightarrow> relay_pc \<Rightarrow> nat" where
  "to_take control (Looping r) = length (control (c_control r))"
| "to_take control (Ending r effs) = 0"

fun to_finish :: "relay_pc \<Rightarrow> nat" where
  "to_finish (Looping r) = 0"
| "to_finish (Ending r effs) = Suc (length effs)"

definition on_turn :: "('e \<Rightarrow> udp_effect list \<Rightarrow> nat) \<Rightarrow> ('s, 'e) chan_sys \<Rightarrow> nat" where
  "on_turn f x = (case x_host x of InTurn s e pre post \<Rightarrow> f e post | _ \<Rightarrow> 0)"

lemma on_turn_simps [simp]:
  "x_host x = InTurn s e pre post \<Longrightarrow> on_turn f x = f e post"
  "x_host x = Selecting s \<Longrightarrow> on_turn f x = 0"
  "x_host x = Gone \<Longrightarrow> on_turn f x = 0"
  "x_host x = turn_result H s e \<Longrightarrow> on_turn f x = 0"
  by (auto simp: on_turn_def turn_result_def split: prod.splits)

definition work :: "('e \<Rightarrow> nat) \<Rightarrow> (('s, 'e) chan_sys \<Rightarrow> nat) list" where
  "work rank =
    [on_turn (\<lambda>e post. rank e), on_turn (\<lambda>e post. length (filter is_spawn post)),
     \<lambda>x. length (x_reports x) + relay_sum to_report (x_relays x), on_turn (\<lambda>e post. Suc (length post)),
     \<lambda>x. relay_sum (to_take (x_control x)) (x_relays x), \<lambda>x. relay_sum to_finish (x_relays x)]"

lemma to_take_mono: "control ch = m # q \<Longrightarrow> to_take (control(ch := q)) p \<le> to_take control p"
  by (cases p) auto

lemma relay_after_report [simp]: "to_report (relay_after r c) = 1"
  by (simp add: relay_after_def ProxyClient_finish_def)

lemma relay_after_take: "to_take control (relay_after r c) \<le> length (control (c_control r))"
  by (simp add: relay_after_def)

context chan_host
begin

lemma task_step_works: "task_step H fails x x' \<Longrightarrow> (x', x) \<in> measures (work rank)"
proof (induction rule: task_step.induct)
  case (host_effect x s e pre y post)
  then show ?case
    using spawn_abort_sum [of y to_report "x_relays x"] by (cases "is_spawn y") (auto simp: work_def)
next
  case (host_send_fails x s e pre ch m post e' post')
  then show ?case using fails_rank by (simp add: work_def)
next
  case (host_report x s a rest e)
  moreover have "filter is_spawn (turn_effects H s e) = []"
    using report_quiet host_report(3) by (simp add: filter_empty_conv list_all_iff)
  ultimately show ?case by (simp add: work_def report_rank)
next
  case (relay_control x t r m q r' outs c)
  let ?control = "(x_control x)(c_control r := q)"
  have "relay_sum (to_take ?control) (fmdrop t (x_relays x)) \<le> relay_sum (to_take (x_control x)) (fmdrop t (x_relays x))"
    using relay_control(2) by (intro relay_sum_mono to_take_mono)
  moreover have "to_take ?control (relay_after r' c) < to_take (x_control x) (Looping r)"
    using relay_after_take [of ?control r' c] relay_step_state [OF relay_control(3)] relay_control(2) by simp
  ultimately show ?case
    using relay_control by (simp add: work_def relay_sum_upd relay_sum_split [OF relay_control(1)] on_turn_def)
qed (auto simp: work_def relay_sum_upd relay_sum_split on_turn_def split: host_pc.splits)

lemma task_steps_wf: "wf {(x', x). task_step H fails x x'}"
  by (rule wf_subset [OF wf_measures [of "work rank"]]) (use task_step_works in auto)

text \<open>Whatever the order of their steps, the tasks stop, and they stop at rest only.\<close>

theorem task_steps_end: "\<nexists>f. f 0 = x \<and> (\<forall>i. task_step H fails (f i) (f (Suc i)))"
  using task_steps_wf unfolding wf_iff_no_infinite_down_chain by auto

theorem come_to_rest: "chan_ok H x \<Longrightarrow> \<exists>x'. (task_step H fails)\<^sup>*\<^sup>* x x' \<and> at_rest x'"
proof (induction x rule: wf_induct_rule [OF task_steps_wf])
  case (1 x)
  show ?case
  proof (cases "\<exists>x'. task_step H fails x x'")
    case True
    then obtain x1 where st: "task_step H fails x x1" by blast
    with "1.IH" [of x1] task_step_ok [OF st] "1.prems" show ?thesis
      by (auto intro: converse_rtranclp_into_rtranclp)
  next
    case False
    with no_deadlock [OF "1.prems"] show ?thesis by blast
  qed
qed

end

section \<open>The endpoints and the pooled sockets\<close>

abbreviation quiet :: "udp_effect list \<Rightarrow> bool" where
  "quiet \<equiv> list_all (\<lambda>y. \<not> is_send y)"

text \<open>The turns of both hosts send at most once, as the last thing they do.\<close>

lemma quiet_no_send: "quiet outs \<Longrightarrow> outs \<noteq> pre @ ChanSend ch m # post"
  by auto

lemma send_last: "quiet outs \<Longrightarrow> outs @ [ChanSend ch' m'] = pre @ ChanSend ch m # post \<Longrightarrow> pre = outs"
  by (cases post rule: rev_cases) auto

lemma send_ok:
  assumes "ProxyClient_send us d ch io = (Inr (), effs)"
  shows "io_sender_err io = None" "effs = [SendDatagram us d] @ [ChanSend ch DataSent]"
    "ProxyClient_send us d ch (io\<lparr>io_sender_err := Some er\<rparr>) = (Inl er, [SendDatagram us d])"
  using assms by (auto simp: ProxyClient_send_def split: option.splits)

lemma send_err_quiet: "ProxyClient_send us d ch io = (Inl e, effs) \<Longrightarrow> quiet effs"
  by (auto simp: ProxyClient_send_def split: option.splits)

lemma allocate_handler_no_send: "allocate_handler peer a sock tx al = (r, effs) \<Longrightarrow> quiet effs"
  by (auto simp: allocate_handler_def ProxyClient_new_def Let_def split: alloc_io.splits)

fun ep_fails :: "endpoint_event \<Rightarrow> endpoint_event \<Rightarrow> bool" where
  "ep_fails (EpRecv a al send) e' \<longleftrightarrow>
     io_sender_err send = None \<and> (\<exists>er. e' = EpRecv a al (send\<lparr>io_sender_err := Some er\<rparr>))"
| "ep_fails _ e' \<longleftrightarrow> False"

fun ep_rank :: "endpoint_event \<Rightarrow> nat" where
  "ep_rank (EpRecv a al send) = (if io_sender_err send = None then 1 else 0)"
| "ep_rank _ = 0"

lemma get_or_create_client_quiet: "get_or_create_client s a sock tx al = (r, s', effs) \<Longrightarrow> quiet effs"
  by (erule get_or_create_client_cases) (auto dest: allocate_handler_no_send)

lemma remove_client_quiet: "remove_client s a = (s', effs) \<Longrightarrow> quiet effs"
  by (auto simp: remove_client_def ProxyClientHandler_drop_def split: option.splits)

lemma endpoint_finish_quiet: "quiet (ProxyEndpoint_finish s)"
  by (simp add: ProxyEndpoint_finish_def ProxyEndpoint_drop_def)

lemmas endpoint_quiet = get_or_create_client_quiet remove_client_quiet send_err_quiet

lemma endpoint_resend:
  assumes "turn_effects (endpoint_host tx) s e = pre @ ChanSend ch m # post"
  shows "\<exists>e' post'. ep_fails e e' \<and> turn_effects (endpoint_host tx) s e' = pre @ post'"
proof -
  obtain s' outs c where st: "ProxyEndpoint_step tx s e = (s', outs, c)"
    by (rule prod_cases3)
  have effs: "outs @ (if c = Break then ProxyEndpoint_finish s' else []) = pre @ ChanSend ch m # post"
    using assms st by (auto simp: turn_effects_def split: if_splits)
  have noisy: "\<not> quiet outs"
  proof
    assume "quiet outs"
    then have "quiet (outs @ (if c = Break then ProxyEndpoint_finish s' else []))"
      by (simp add: endpoint_finish_quiet)
    from quiet_no_send [OF this] effs show False by blast
  qed
  from st show ?thesis
  proof (cases rule: endpoint_step_cases)
    case (sent d addr alloc send h effs1 effs2)
    let ?e = "EpRecv (Inr (d, addr)) alloc (send\<lparr>io_sender_err := Some ''channel closed''\<rparr>)"
    note ok = send_ok [OF sent(3)]
    have "quiet (Incr IN_CLIENT_UDP_MESSAGE # effs1 @ [SendDatagram (h_socket h) (recv_buf d)])"
      using endpoint_quiet(1) [OF sent(2)] by simp
    then have pre: "pre = Incr IN_CLIENT_UDP_MESSAGE # effs1 @ [SendDatagram (h_socket h) (recv_buf d)]"
      by (rule send_last) (use effs sent(4,5) ok(2) in simp)
    have "\<exists>post'. turn_effects (endpoint_host tx) s ?e = pre @ post'"
      using sent(2) ok(3) by (auto simp: turn_effects_def pre split: prod.splits)
    with ok(1) show ?thesis
      unfolding sent(1) by (intro exI [of _ ?e]) auto
  qed (use noisy in \<open>auto simp: list_all_iff dest!: endpoint_quiet\<close>)
qed

interpretation ep_chan: chan_host "endpoint_host tx" ep_fails ep_rank for tx
proof
  show "\<exists>e' post'. ep_fails e e' \<and> turn_effects (endpoint_host tx) s e' = pre @ post'"
    if "turn_effects (endpoint_host tx) s e = pre @ ChanSend ch m # post" for s e pre ch m post
    using that by (rule endpoint_resend)
  show "ep_rank e' < ep_rank e" if "ep_fails e e'" for e e'
    using that by (cases e) auto
  show "list_all (\<lambda>y. \<not> is_spawn y) (turn_effects (endpoint_host tx) s (hs_report (endpoint_host tx) a closed))"
    for s a closed
    by (auto simp: turn_effects_def remove_client_def ProxyClientHandler_drop_def ProxyEndpoint_finish_def
        ProxyEndpoint_drop_def split: option.splits prod.splits)
qed simp

text \<open>A pooled socket may send twice for one datagram: on the channel of a known client, then on a new one.\<close>

fun pooled_fails :: "pooled_event \<Rightarrow> pooled_event \<Rightarrow> bool" where
  "pooled_fails (PooledRecv a known al send) e' \<longleftrightarrow>
     io_sender_err known = None \<and> (\<exists>er. e' = PooledRecv a (known\<lparr>io_sender_err := Some er\<rparr>) al send) \<or>
     io_sender_err send = None \<and> (\<exists>er. e' = PooledRecv a known al (send\<lparr>io_sender_err := Some er\<rparr>))"
| "pooled_fails _ e' \<longleftrightarrow> False"

fun pooled_rank :: "pooled_event \<Rightarrow> nat" where
  "pooled_rank (PooledRecv a known al send) =
     (if io_sender_err known = None then 1 else 0) + (if io_sender_err send = None then 1 else 0)"
| "pooled_rank _ = 0"

text \<open>A datagram's turn that sends: the effects before the send, and the turn in which it failed.\<close>

lemma route_afresh_resend:
  assumes "route_afresh s d addr tx al send = Ret (s', effs)" "\<not> quiet effs"
  shows "io_sender_err send = None \<and>
    (\<exists>outs ch s'' rest. quiet outs \<and> effs = outs @ [ChanSend ch DataSent] \<and>
      route_afresh s d addr tx al (send\<lparr>io_sender_err := Some er\<rparr>) = Ret (s'', outs @ rest))"
  using assms(1)
proof (cases rule: route_afresh_cases)
  case (opened u t h effs1 effs2)
  note ok = send_ok [OF opened(3)]
  let ?outs = "effs1 @ [SendDatagram (h_socket h) d]"
  have "quiet ?outs" "effs = ?outs @ [ChanSend (h_sender h) DataSent]"
    using allocate_handler_no_send [OF opened(2)] ok(2) opened(5) by simp_all
  moreover have "route_afresh s d addr tx al (send\<lparr>io_sender_err := Some er\<rparr>) =
      Ret (s, ?outs @ ProxyClientHandler_drop h)"
    using opened(1,2) ok(3) by (simp add: route_afresh_def)
  ultimately show ?thesis
    using ok(1) by blast
next
  case (dropped u t h effs1 effs2 e)
  with assms(2) allocate_handler_no_send [OF dropped(2)] send_err_quiet [OF dropped(3)] show ?thesis by simp
qed (use assms(2) in simp_all)

text \<open>
  A datagram either goes to a live relay, or, after quiet effects, is routed afresh, whatever the send
  on the new channel will give.
\<close>

lemma on_datagram_front:
  assumes "on_datagram s d addr tx known al send = Ret (s', effs)"
  obtains
    (live) c where "fmlookup (u_clients s) addr = Some c"
      "ProxyClient_send (h_socket (p_handler c)) d (h_sender (p_handler c)) known =
        (Inr (), [SendDatagram (h_socket (p_handler c)) d] @ [ChanSend (h_sender (p_handler c)) DataSent])"
      "effs = [Incr IN_CLIENT_UDP_MESSAGE, SendDatagram (h_socket (p_handler c)) d] @
        [ChanSend (h_sender (p_handler c)) DataSent]"
  | (afresh) front s1 effs2 where "quiet front" "effs = front @ effs2"
      "route_afresh s1 d addr tx al send = Ret (s', effs2)"
      "\<And>send' s'' rest. route_afresh s1 d addr tx al send' = Ret (s'', rest) \<Longrightarrow>
        on_datagram s d addr tx known al send' = Ret (s'', front @ rest)"
  using assms
proof (cases rule: on_datagram_cases)
  case (live c effs1)
  with send_ok(2) [OF live(2)] that(1) show thesis by simp
next
  case (stale c e effs1 effs2)
  let ?front = "Incr IN_CLIENT_UDP_MESSAGE # effs1 @ [AbortRelays {|h_handler (p_handler c)|}]"
  show thesis
  proof (rule that(2) [of ?front effs2 "s\<lparr>u_clients := fmdrop addr (u_clients s)\<rparr>"])
    show "quiet ?front" using send_err_quiet [OF stale(2)] by simp
  qed (use stale in \<open>simp_all add: on_datagram_def ProxyClientHandler_drop_def\<close>)
next
  case (unknown effs2)
  then show thesis
    by (intro that(2) [of "[Incr IN_CLIENT_UDP_MESSAGE]" effs2 s]) (simp_all add: on_datagram_def)
qed

lemma on_datagram_resend:
  assumes "on_datagram s d addr tx known al send = Ret (s', effs)" "\<not> quiet effs"
  shows "\<exists>outs ch known' send' s'' rest. quiet outs \<and> effs = outs @ [ChanSend ch DataSent] \<and>
    pooled_fails (PooledRecv a known al send) (PooledRecv a known' al send') \<and>
    on_datagram s d addr tx known' al send' = Ret (s'', outs @ rest)"
  using assms(1)
proof (cases rule: on_datagram_front)
  case (live c)
  note ok = send_ok [OF live(2)]
  let ?outs = "[Incr IN_CLIENT_UDP_MESSAGE, SendDatagram (h_socket (p_handler c)) d]"
  obtain s'' rest where "route_afresh (s\<lparr>u_clients := fmdrop addr (u_clients s)\<rparr>) d addr tx al send = Ret (s'', rest)"
    using route_afresh_total by blast
  then have "on_datagram s d addr tx (known\<lparr>io_sender_err := Some ''channel closed''\<rparr>) al send =
      Ret (s'', ?outs @ ProxyClientHandler_drop (p_handler c) @ rest)"
    using live(1) ok(3) by (simp add: on_datagram_def)
  moreover have "quiet ?outs" by simp
  ultimately show ?thesis
    using ok(1) live(3) by (metis pooled_fails.simps(1))
next
  case (afresh front s1 effs2)
  with assms(2) have "\<not> quiet effs2" by simp
  from route_afresh_resend [OF afresh(3) this, of "''channel closed''"] obtain outs ch s'' rest where
    r: "io_sender_err send = None" "quiet outs" "effs2 = outs @ [ChanSend ch DataSent]"
      "route_afresh s1 d addr tx al (send\<lparr>io_sender_err := Some ''channel closed''\<rparr>) = Ret (s'', outs @ rest)"
    by blast
  have "quiet (front @ outs)" "effs = (front @ outs) @ [ChanSend ch DataSent]"
    using afresh(1,2) r(2,3) by simp_all
  with afresh(4) [OF r(4)] r(1) show ?thesis
    by (metis append.assoc pooled_fails.simps(1))
qed

lemma on_control_quiet: "on_control s msg = (s', effs) \<Longrightarrow> quiet effs"
  by (cases msg) (auto simp: Let_def drop_clients_def forget_ufrag_if_unused_def
      split: option.splits prod.splits if_splits)

lemma pooled_resend:
  assumes "turn_effects (pooled_host tx) s e = pre @ ChanSend ch m # post"
  shows "\<exists>e' post'. pooled_fails e e' \<and> turn_effects (pooled_host tx) s e' = pre @ post'"
proof -
  obtain s' outs c where st: "PooledUdpEndpoint_step tx s e = (s', outs, c)"
    by (rule prod_cases3)
  have effs: "outs @ (if c = Break then PooledUdpEndpoint_drop s' else []) = pre @ ChanSend ch m # post"
    using assms st by (auto simp: turn_effects_def split: if_splits)
  have noisy: "\<not> quiet outs"
  proof
    assume "quiet outs"
    then have "quiet (outs @ (if c = Break then PooledUdpEndpoint_drop s' else []))"
      by (simp add: PooledUdpEndpoint_drop_def)
    from quiet_no_send [OF this] effs show False by blast
  qed
  from st show ?thesis
  proof (cases rule: pooled_step_cases)
    case (datagram d addr known alloc send)
    from on_datagram_resend [OF datagram(2) noisy, of "Inr (d, addr)"] obtain outs1 ch1 known' send' s'' rest
      where r: "quiet outs1" "outs = outs1 @ [ChanSend ch1 DataSent]"
        "pooled_fails e (PooledRecv (Inr (d, addr)) known' alloc send')"
        "on_datagram s (recv_buf d) addr tx known' alloc send' = Ret (s'', outs1 @ rest)"
      unfolding datagram(1) by blast
    have "pre = outs1"
      using r(1) by (rule send_last) (use effs datagram(3) r(2) in simp)
    moreover have "turn_effects (pooled_host tx) s (PooledRecv (Inr (d, addr)) known' alloc send') = outs1 @ rest"
      using r(4) by (simp add: turn_effects_def)
    ultimately show ?thesis
      using r(3) by blast
  next
    case (control msg)
    with noisy on_control_quiet show ?thesis by blast
  qed (use noisy in simp_all)
qed

interpretation pooled_chan: chan_host "pooled_host tx" pooled_fails pooled_rank for tx
proof
  show "\<exists>e' post'. pooled_fails e e' \<and> turn_effects (pooled_host tx) s e' = pre @ post'"
    if "turn_effects (pooled_host tx) s e = pre @ ChanSend ch m # post" for s e pre ch m post
    using that by (rule pooled_resend)
  show "pooled_rank e' < pooled_rank e" if "pooled_fails e e'" for e e'
    using that by (cases e) auto
  show "list_all (\<lambda>y. \<not> is_spawn y) (turn_effects (pooled_host tx) s (hs_report (pooled_host tx) a closed))"
    for s a closed
    by (auto simp: turn_effects_def ProxyClientHandler_drop_def PooledUdpEndpoint_drop_def split: option.splits)
qed simp

section \<open>Progress\<close>

text \<open>
  C27. No deadlock between an endpoint and its relays on their bounded channels: in every state
  they can reach, in the middle of any turn and with any channel full, some task can make a step
  unless all of them are at rest (the endpoint in \<open>select!\<close> or gone, no report and no control message
  waiting, every relay in its loop); no schedule of their steps goes on for ever without an event from
  outside, and the state at rest is reached.
\<close>

theorem endpoint_channels_progress:
  assumes "chan_reachable (endpoint_host tx) ep_fails (fresh_endpoint sock ep remote) x"
  shows "(at_rest x \<or> (\<exists>x'. task_step (endpoint_host tx) ep_fails x x')) \<and>
    (\<nexists>f. f 0 = x \<and> (\<forall>i. task_step (endpoint_host tx) ep_fails (f i) (f (Suc i)))) \<and>
    (\<exists>x'. (task_step (endpoint_host tx) ep_fails)\<^sup>*\<^sup>* x x' \<and> at_rest x')"
  using chan_reachable_ok [OF assms] ep_chan.no_deadlock ep_chan.task_steps_end ep_chan.come_to_rest by blast

text \<open>
  C11. No deadlock between a pooled socket and its relays: the same, where one datagram may make the
  socket's task wait on the channel of a relay that is ending and then on that of a new one.
\<close>

theorem pooled_channels_progress:
  assumes "chan_reachable (pooled_host tx) pooled_fails (fst (PooledUdpEndpoint_new sock)) x"
  shows "(at_rest x \<or> (\<exists>x'. task_step (pooled_host tx) pooled_fails x x')) \<and>
    (\<nexists>f. f 0 = x \<and> (\<forall>i. task_step (pooled_host tx) pooled_fails (f i) (f (Suc i)))) \<and>
    (\<exists>x'. (task_step (pooled_host tx) pooled_fails)\<^sup>*\<^sup>* x x' \<and> at_rest x')"
  using chan_reachable_ok [OF assms] pooled_chan.no_deadlock pooled_chan.task_steps_end pooled_chan.come_to_rest
  by blast

lemma chan_event_reachable:
  assumes "chan_reachable H fails s0 x" "x_host x = Selecting s" "hs_own H e"
  shows "chan_reachable H fails s0 (x\<lparr>x_host := InTurn s e [] (turn_effects H s e)\<rparr>)"
  using assms by (blast intro: chan_outside host_event)

theorem endpoint_channels_progress_witness:
  "\<exists>x. chan_reachable (endpoint_host 5) ep_fails (fresh_endpoint 1 (Endpoint_new 80 ''10.0.0.1'' ''s'') (V4 1 80)) x \<and>
     (\<exists>s e y ys. x_host x = InTurn s e [] (y # ys)) \<and>
     (\<exists>x'. (task_step (endpoint_host 5) ep_fails)\<^sup>*\<^sup>* x x' \<and> at_rest x')"
proof -
  let ?s0 = "fresh_endpoint 1 (Endpoint_new 80 ''10.0.0.1'' ''s'') (V4 1 80)"
  let ?e = "EpRecv (Inr ([1], V4 9 9)) (Connected 2 3 4) quiet_send"
  let ?x = "(chan_new ?s0)\<lparr>x_host := InTurn ?s0 ?e [] (turn_effects (endpoint_host 5) ?s0 ?e)\<rparr>"
  have reach: "chan_reachable (endpoint_host 5) ep_fails ?s0 ?x"
    by (rule chan_event_reachable [OF chan_init]) (simp_all add: chan_new_def)
  moreover have "\<exists>y ys. turn_effects (endpoint_host 5) ?s0 ?e = y # ys"
    by (simp add: turn_effects_def get_or_create_client_def allocate_handler_def ProxyClient_new_def
        ProxyClient_send_def ProxyEndpoint_new_def Let_def)
  ultimately show ?thesis
    using endpoint_channels_progress [OF reach] by (intro exI [of _ ?x]) auto
qed

theorem pooled_channels_progress_witness:
  "\<exists>x. chan_reachable (pooled_host 5) pooled_fails (fst (PooledUdpEndpoint_new 1)) x \<and>
     (\<exists>s e y ys. x_host x = InTurn s e [] (y # ys)) \<and>
     (\<exists>x'. (task_step (pooled_host 5) pooled_fails)\<^sup>*\<^sup>* x x' \<and> at_rest x')"
proof -
  let ?s0 = "fst (PooledUdpEndpoint_new 1)"
  let ?e = "PooledControl (Some (AddRoute ''s'' ''abcd'' (V4 1 80) 7))"
  let ?x = "(chan_new ?s0)\<lparr>x_host := InTurn ?s0 ?e [] (turn_effects (pooled_host 5) ?s0 ?e)\<rparr>"
  have reach: "chan_reachable (pooled_host 5) pooled_fails ?s0 ?x"
    by (rule chan_event_reachable [OF chan_init]) (simp_all add: chan_new_def)
  moreover have "\<exists>y ys. turn_effects (pooled_host 5) ?s0 ?e = y # ys"
    by (simp add: turn_effects_def PooledUdpEndpoint_new_def)
  ultimately show ?thesis
    using pooled_channels_progress [OF reach] by (intro exI [of _ ?x]) auto
qed

end
