(* ===== verification/Tcp.thy ===== *)
theory Tcp
  imports Proxy_Types Event_Loop "HOL-Library.Sublist"
begin

text \<open>
  The TCP path, \<^verbatim>\<open>src/proxy/tcp_clients.rs\<close>: the relay of one accepted connection
  (\<open>ProxyTcpClient\<close>), the endpoint task with its listener (\<open>ProxyTcpEndpoint\<close>) and its handle.  The
  byte streams are recorded as effects, so that what a relay delivers can be compared with what
  it has read.  A panic of the task is a state of the loop: the epilogue does not run then.
\<close>

section \<open>State and effects\<close>

datatype side = Client | Server

fun other_side :: "side \<Rightarrow> side" where
  "other_side Client = Server"
| "other_side Server = Client"

record ProxyTcpClient =
  tc_cl_stream :: sock_id
  tc_s_stream :: sock_id
  tc_endpoint :: Endpoint
  tc_addr :: SocketAddr
  tc_msg_tx :: chan_id

record ProxyTcpEndpoint =
  te_tcp_listener :: sock_id
  te_endpoint :: Endpoint
  te_clients :: "(SocketAddr, task_id) fmap"

record ProxyTcpEndpointHandler =
  th_endpoint_handle :: task_id
  th_local_port :: u16

datatype tcp_effect =
    TcpIncr counter
  | TcpRead side "u8 list"
  | TcpWrite side "u8 list"
  | TcpConnect SocketAddr
  | TcpChanSend chan_id ProxyClientMsg
  | SpawnTcpClient task_id ProxyTcpClient
  | SpawnTcpEndpoint task_id ProxyTcpEndpoint
  | AbortTcpTasks "task_id fset"
  | DetachTcpTasks "task_id fset"
  | TcpToManager ProxyManagerMsg

section \<open>Copying between the streams\<close>

text \<open>
  The outcomes of the calls on a stream.  \<open>Wrote n\<close> is \<open>try_write\<close> taking \<open>n\<close> bytes; a list of write
  outcomes that runs out is a task waiting for the stream to become writable.
\<close>

datatype write_io = NotWritable err | Wrote nat | WriteWouldBlock | WriteErr err

datatype read_io = ReadOk "u8 list" | ReadWouldBlock | ReadErr err

fun write_to_stream :: "u8 list \<Rightarrow> write_io list \<Rightarrow> unit result poll \<times> u8 list" where
  "write_to_stream buf [] = (Pending, [])"
| "write_to_stream buf (NotWritable e # ws) = (Ready (Inl e), [])"
| "write_to_stream buf (Wrote n # ws) = (Ready (Inr ()), take n buf)"
| "write_to_stream buf (WriteWouldBlock # ws) = write_to_stream buf ws"
| "write_to_stream buf (WriteErr e # ws) = (Ready (Inl e), [])"

text \<open>The progress of one \<open>read_and_write\<close>: not readable yet, an error of \<open>readable\<close>, or a read.\<close>

datatype rw_io = NotReadable | ReadableErr err | Readable read_io "write_io list"

text \<open>The value, the bytes taken from the one stream and the bytes given to the other.\<close>

fun read_and_write :: "rw_io \<Rightarrow> unit result poll \<times> u8 list \<times> u8 list" where
  "read_and_write NotReadable = (Pending, [], [])"
| "read_and_write (ReadableErr e) = (Ready (Inl e), [], [])"
| "read_and_write (Readable r ws) =
     (case r of
        ReadOk d \<Rightarrow>
          (let buf = recv_buf d in
           if buf = [] then (Ready (Inl ''socket is closed''), [], [])
           else (case write_to_stream buf ws of (p, written) \<Rightarrow> (p, buf, written)))
      | ReadWouldBlock \<Rightarrow> (Ready (Inr ()), [], [])
      | ReadErr e \<Rightarrow> (Ready (Inl ''socket is closed''), [], []))"

section \<open>The relay of one connection\<close>

datatype connect_io = ConnectFailed err | ConnectOk sock_id

text \<open>
  \<open>ProxyTcpClient::new\<close>.  \<open>resolve\<close> is \<open>to_socket_addrs\<close> on the printed endpoint; both \<open>unwrap\<close>s
  panic.
\<close>

definition ProxyTcpClient_new :: "(string \<Rightarrow> SocketAddr list result) \<Rightarrow> sock_id \<Rightarrow> SocketAddr \<Rightarrow> Endpoint
    \<Rightarrow> chan_id \<Rightarrow> connect_io \<Rightarrow> (ProxyTcpClient result \<times> tcp_effect list) exec" where
  "ProxyTcpClient_new resolve stream addr ep msg_tx io =
     (case resolve (Endpoint_display ep) of
        Inl e \<Rightarrow> Panic
      | Inr addrs \<Rightarrow>
          (case iter_next addrs of
             None \<Rightarrow> Panic
           | Some remote_adr \<Rightarrow>
               (case io of
                  ConnectFailed e \<Rightarrow> Ret (Inl e, [TcpConnect remote_adr])
                | ConnectOk s_stream \<Rightarrow>
                    Ret (Inr \<lparr>tc_cl_stream = stream, tc_s_stream = s_stream, tc_endpoint = ep,
                              tc_addr = addr, tc_msg_tx = msg_tx\<rparr>,
                         [TcpConnect remote_adr, TcpIncr TCP_CONNECTION_TO_SRV]))))"

text \<open>
  One turn of the relay's \<open>select!\<close>.  \<open>Copied sd io lost\<close>: the copy that reads from \<open>sd\<close> completed
  first, with progress \<open>io\<close>, and the opposite copy was dropped where it stood: \<open>lost\<close> is what it had
  read and was still waiting to write, if anything.  \<open>TcpTimeout\<close>: the idle timer fired, and both
  copies were dropped.
\<close>

datatype tcp_turn =
    Copied side rw_io "u8 list option"
  | TcpTimeout "u8 list option" "u8 list option"

definition dropped_read :: "side \<Rightarrow> u8 list option \<Rightarrow> tcp_effect list" where
  "dropped_read sd lost = (case lost of None \<Rightarrow> [] | Some d \<Rightarrow> [TcpRead sd (recv_buf d)])"

definition side_counter :: "side \<Rightarrow> counter" where
  "side_counter sd = (case sd of Client \<Rightarrow> IN_CLIENT_TCP_MESSAGE | Server \<Rightarrow> IN_MS_TCP_MESSAGE)"

text \<open>A copy that is still waiting does not complete the turn.\<close>

fun ProxyTcpClient_step :: "(ProxyTcpClient, tcp_turn, tcp_effect) loop_step" where
  "ProxyTcpClient_step c (Copied sd io lost) =
     (case read_and_write io of
        (Pending, got, written) \<Rightarrow> (c, [], Continue)
      | (Ready r, got, written) \<Rightarrow>
          (let effs = dropped_read (other_side sd) lost @ [TcpRead sd got, TcpWrite (other_side sd) written] in
           case r of
             Inr u \<Rightarrow> (c, effs @ [TcpIncr (side_counter sd)], Continue)
           | Inl e \<Rightarrow> (c, effs, Break)))"
| "ProxyTcpClient_step c (TcpTimeout lost1 lost2) =
     (c, dropped_read Client lost1 @ dropped_read Server lost2, Break)"

definition ProxyTcpClient_finish :: "ProxyTcpClient \<Rightarrow> tcp_effect list" where
  "ProxyTcpClient_finish c = [TcpChanSend (tc_msg_tx c) (ClientEnded (tc_addr c))]"

definition ProxyTcpClient_run :: "ProxyTcpClient \<Rightarrow> tcp_turn list \<Rightarrow> ProxyTcpClient \<times> tcp_effect list \<times> loop_ctl" where
  "ProxyTcpClient_run = run_loop ProxyTcpClient_step ProxyTcpClient_finish"

section \<open>The endpoint task\<close>

definition ProxyTcpEndpoint_new :: "sock_id \<Rightarrow> Endpoint \<Rightarrow> ProxyTcpEndpoint \<times> tcp_effect list" where
  "ProxyTcpEndpoint_new listener ep =
     (\<lparr>te_tcp_listener = listener, te_endpoint = ep, te_clients = fmempty\<rparr>, [TcpIncr TCP_SOCKET_ALLOCATE])"

datatype tcp_endpoint_event =
    TcpAccept "(sock_id \<times> SocketAddr) result" connect_io task_id
  | TcpClientRx "ProxyClientMsg option"
  | TcpIdle

text \<open>
  One turn.  The handle of a relay that is removed or replaced is dropped, which detaches the
  relay and does not stop it.
\<close>

fun ProxyTcpEndpoint_turn :: "(string \<Rightarrow> SocketAddr list result) \<Rightarrow> chan_id \<Rightarrow> ProxyTcpEndpoint \<Rightarrow> tcp_endpoint_event
    \<Rightarrow> (ProxyTcpEndpoint \<times> tcp_effect list \<times> loop_ctl) exec" where
  "ProxyTcpEndpoint_turn resolve msg_tx s (TcpAccept a conn tid) =
     (case a of
        Inr (stream, addr) \<Rightarrow>
          exec_bind (ProxyTcpClient_new resolve stream addr (te_endpoint s) msg_tx conn) (\<lambda>(r, effs).
            case r of
              Inr client \<Rightarrow>
                Ret (s\<lparr>te_clients := fmupd addr tid (te_clients s)\<rparr>, effs @ [SpawnTcpClient tid client], Continue)
            | Inl e \<Rightarrow> Ret (s, effs, Continue))
      | Inl e \<Rightarrow> Ret (s, [], Break))"
| "ProxyTcpEndpoint_turn resolve msg_tx s (TcpClientRx b) =
     (case b of
        Some msg \<Rightarrow>
          (case msg of
             ClientEnded addr \<Rightarrow>
               (let s' = s\<lparr>te_clients := fmdrop addr (te_clients s)\<rparr>
                in Ret (s', [], if hm_len (te_clients s') = 0 then Break else Continue))
           | _ \<Rightarrow> Ret (s, [], Break))
      | None \<Rightarrow> Ret (s, [], Break))"
| "ProxyTcpEndpoint_turn resolve msg_tx s TcpIdle = Ret (s, [TcpIncr IDLE_TCP_SERVER], Break)"

text \<open>The loop over states of the task, \<open>Panic\<close> being the task that panicked.\<close>

definition ProxyTcpEndpoint_step :: "(string \<Rightarrow> SocketAddr list result) \<Rightarrow> chan_id
    \<Rightarrow> (ProxyTcpEndpoint exec, tcp_endpoint_event, tcp_effect) loop_step" where
  "ProxyTcpEndpoint_step resolve msg_tx st e =
     (case exec_bind st (\<lambda>s. ProxyTcpEndpoint_turn resolve msg_tx s e) of
        Panic \<Rightarrow> (Panic, [], Break)
      | Ret (s', effs, ctl) \<Rightarrow> (Ret s', effs, ctl))"

definition ProxyTcpEndpoint_finish :: "ProxyTcpEndpoint exec \<Rightarrow> tcp_effect list" where
  "ProxyTcpEndpoint_finish st =
     (case st of Panic \<Rightarrow> [] | Ret s \<Rightarrow> [TcpToManager (TcpEndpointEnded (te_endpoint s))])"

text \<open>
  The state of a task is dropped when it has ended, panicked or was aborted.  The table holds plain
  \<open>JoinHandle\<close>s, without the \<open>Drop\<close> the handlers of UDP relays have: dropping a \<open>JoinHandle\<close> detaches its task.
\<close>

definition ProxyTcpEndpoint_drop :: "ProxyTcpEndpoint \<Rightarrow> tcp_effect list" where
  "ProxyTcpEndpoint_drop s = [DetachTcpTasks (fmran (te_clients s))]"

definition ProxyTcpEndpoint_run :: "(string \<Rightarrow> SocketAddr list result) \<Rightarrow> chan_id \<Rightarrow> ProxyTcpEndpoint
    \<Rightarrow> tcp_endpoint_event list \<Rightarrow> ProxyTcpEndpoint exec \<times> tcp_effect list \<times> loop_ctl" where
  "ProxyTcpEndpoint_run resolve msg_tx s = run_loop (ProxyTcpEndpoint_step resolve msg_tx) ProxyTcpEndpoint_finish (Ret s)"

datatype listen_io = ListenErr err | ListenAddrErr err | Listening u16 sock_id task_id

definition ProxyTcpEndpointHandler_new :: "Endpoint \<Rightarrow> listen_io \<Rightarrow> ProxyTcpEndpointHandler result \<times> tcp_effect list" where
  "ProxyTcpEndpointHandler_new ep io =
     (case io of
        ListenErr e \<Rightarrow> (Inl e, [])
      | ListenAddrErr e \<Rightarrow> (Inl e, [])
      | Listening p listener tid \<Rightarrow>
          (case ProxyTcpEndpoint_new listener ep of
             (tcp_endpoint, effs) \<Rightarrow>
               (Inr \<lparr>th_endpoint_handle = tid, th_local_port = p\<rparr>, effs @ [SpawnTcpEndpoint tid tcp_endpoint])))"

definition ProxyTcpEndpointHandler_kill :: "ProxyTcpEndpointHandler \<Rightarrow> tcp_effect list" where
  "ProxyTcpEndpointHandler_kill h = [AbortTcpTasks {|th_endpoint_handle h|}]"

section \<open>The byte streams of a relay\<close>

fun read_bytes :: "side \<Rightarrow> tcp_effect \<Rightarrow> u8 list" where
  "read_bytes sd (TcpRead sd' d) = (if sd' = sd then d else [])"
| "read_bytes sd _ = []"

fun written_bytes :: "side \<Rightarrow> tcp_effect \<Rightarrow> u8 list" where
  "written_bytes sd (TcpWrite sd' d) = (if sd' = sd then d else [])"
| "written_bytes sd _ = []"

text \<open>Everything read from one side, everything written to one side.\<close>

abbreviation stream_read :: "side \<Rightarrow> tcp_effect list \<Rightarrow> u8 list" where
  "stream_read sd outs \<equiv> concat (map (read_bytes sd) outs)"

abbreviation stream_written :: "side \<Rightarrow> tcp_effect list \<Rightarrow> u8 list" where
  "stream_written sd outs \<equiv> concat (map (written_bytes sd) outs)"

lemma other_side_other [simp]: "other_side (other_side sd) = sd"
  by (cases sd) simp_all

lemma other_side_neq [simp]: "other_side sd \<noteq> sd" "sd \<noteq> other_side sd"
  by (cases sd; simp)+

lemma other_side_eq: "other_side sd = sd' \<longleftrightarrow> sd = other_side sd'"
  by (cases sd; cases sd') simp_all

text \<open>The write loop gives the stream a prefix of the buffer, at the first outcome that is not \<open>WouldBlock\<close>.\<close>

lemma write_to_stream_blocked:
  "write_to_stream buf (replicate k WriteWouldBlock @ ws) = write_to_stream buf ws"
  by (induction k) simp_all

lemma write_to_stream_prefix: "write_to_stream buf ws = (p, written) \<Longrightarrow> prefix written buf"
  by (induction buf ws rule: write_to_stream.induct) (auto simp: take_is_prefix)

lemma write_to_stream_pending:
  "fst (write_to_stream buf ws) = Pending \<longleftrightarrow> list_all (\<lambda>w. w = WriteWouldBlock) ws"
  by (induction buf ws rule: write_to_stream.induct) simp_all

lemma read_and_write_prefix: "read_and_write io = (p, got, written) \<Longrightarrow> prefix written got"
  by (cases io) (auto simp: Let_def write_to_stream_prefix split: read_io.splits if_splits prod.splits)

text \<open>No write is short: \<open>try_write\<close> took the whole buffer whenever it took anything.\<close>

fun whole_writes :: "tcp_turn \<Rightarrow> bool" where
  "whole_writes (Copied sd (Readable (ReadOk d) ws) lost) \<longleftrightarrow>
     lost = None \<and> list_all (\<lambda>w. \<forall>n. w = Wrote n \<longrightarrow> length (recv_buf d) \<le> n) ws"
| "whole_writes (Copied sd io lost) \<longleftrightarrow> lost = None"
| "whole_writes (TcpTimeout lost1 lost2) \<longleftrightarrow> lost1 = None \<and> lost2 = None"

lemma write_to_stream_whole:
  "write_to_stream buf ws = (Ready (Inr u), written) \<Longrightarrow>
     list_all (\<lambda>w. \<forall>n. w = Wrote n \<longrightarrow> length buf \<le> n) ws \<Longrightarrow> written = buf"
  by (induction buf ws rule: write_to_stream.induct) auto

lemma tcp_step_state: "ProxyTcpClient_step c t = (c', outs, ctl) \<Longrightarrow> c' = c"
  by (cases t) (auto simp: Let_def split: prod.splits poll.splits sum.splits)

interpretation tcp_relay: event_loop ProxyTcpClient_step ProxyTcpClient_finish "\<lambda>s. s = c" for c
  by unfold_locales (use tcp_step_state in blast)

lemma stream_dropped [simp]:
  "stream_written sd (dropped_read sd' lost) = []"
  "stream_read sd (dropped_read sd' lost) = (if sd' = sd then (case lost of None \<Rightarrow> [] | Some d \<Rightarrow> recv_buf d) else [])"
  by (auto simp: dropped_read_def split: option.splits)

lemma tcp_step_subseq:
  assumes "ProxyTcpClient_step c t = (c', outs, ctl)"
  shows "subseq (stream_written (other_side sd) outs) (stream_read sd outs)"
proof (cases t)
  case (Copied sd' io lost)
  obtain p got written where io: "read_and_write io = (p, got, written)"
    by (metis prod_cases3)
  have "subseq written got"
    by (rule prefix_imp_subseq [OF read_and_write_prefix [OF io]])
  with assms Copied io show ?thesis
    by (cases p) (auto simp: Let_def other_side_eq split: sum.splits)
next
  case TcpTimeout
  with assms show ?thesis by auto
qed

lemma tcp_step_whole:
  assumes "ProxyTcpClient_step c t = (c', outs, Continue)" "whole_writes t"
  shows "stream_written (other_side sd) outs = stream_read sd outs"
proof (cases t)
  case (Copied sd' io lost)
  obtain p got written where io: "read_and_write io = (p, got, written)"
    by (metis prod_cases3)
  have lost: "lost = None"
    using assms(2) Copied by (cases t rule: whole_writes.cases) auto
  have "p = Ready (Inr u) \<Longrightarrow> written = got" for u
    using io assms(2) Copied
    by (cases io) (auto simp: Let_def dest: write_to_stream_whole split: read_io.splits if_splits prod.splits)
  with assms Copied io lost show ?thesis
    by (cases p) (auto simp: Let_def other_side_eq split: sum.splits)
qed (use assms in simp)

lemma tcp_run_streams:
  "ProxyTcpClient_run c ts = (c', outs, ctl) \<Longrightarrow>
     subseq (stream_written (other_side sd) outs) (stream_read sd outs) \<and>
     (ctl = Continue \<longrightarrow> list_all whole_writes ts \<longrightarrow> stream_written (other_side sd) outs = stream_read sd outs)"
proof (induction ts arbitrary: outs)
  case (Cons t ts)
  obtain outs1 ctl1 where st: "ProxyTcpClient_step c t = (c, outs1, ctl1)"
    using tcp_step_state by (metis prod_cases3)
  note sub = tcp_step_subseq [OF st, of sd]
  show ?case
  proof (cases ctl1)
    case Break
    with Cons.prems st sub show ?thesis
      by (auto simp: ProxyTcpClient_run_def ProxyTcpClient_finish_def)
  next
    case Continue
    with Cons.prems st obtain outs2 where r: "ProxyTcpClient_run c ts = (c', outs2, ctl)" "outs = outs1 @ outs2"
      by (auto simp: ProxyTcpClient_run_def split: prod.splits)
    from Cons.IH [OF r(1)] sub show ?thesis
      using tcp_step_whole [of c t c outs1 sd] st Continue by (auto simp: r(2) list_emb_append_mono)
  qed
qed (simp add: ProxyTcpClient_run_def)

text \<open>
  C29. What a TCP relay writes to one side is a subsequence of what it has read from the other:
  nothing is invented, duplicated or reordered, in either direction.  While it runs, nothing is
  missing either, provided the kernel took every buffer whole and no copy was dropped between
  its read and its write.
\<close>

theorem ProxyTcpClient_run_streams:
  assumes "ProxyTcpClient_run c ts = (c', outs, ctl)"
  shows "subseq (stream_written (other_side sd) outs) (stream_read sd outs) \<and>
    (ctl = Continue \<longrightarrow> list_all whole_writes ts \<longrightarrow>
       stream_written (other_side sd) outs = stream_read sd outs)"
  by (rule tcp_run_streams [OF assms])

abbreviation demo_tcp :: ProxyTcpClient where
  "demo_tcp \<equiv> \<lparr>tc_cl_stream = 1, tc_s_stream = 2, tc_endpoint = Endpoint_new 80 ''h'' ''s'',
     tc_addr = V4 9 9, tc_msg_tx = 5\<rparr>"

theorem ProxyTcpClient_run_streams_witness:
  "\<exists>c outs. ProxyTcpClient_run demo_tcp
      [Copied Client (Readable (ReadOk [1, 2, 3]) [WriteWouldBlock, Wrote 3]) None,
       Copied Client (Readable (ReadOk [4]) [Wrote 1]) None] = (c, outs, Continue) \<and>
     stream_written Server outs = stream_read Client outs \<and> stream_read Client outs = [1, 2, 3, 4]"
proof -
  let ?ts = "[Copied Client (Readable (ReadOk [1, 2, 3]) [WriteWouldBlock, Wrote 3]) None,
    Copied Client (Readable (ReadOk [4]) [Wrote 1]) None]"
  obtain c outs ctl where run: "ProxyTcpClient_run demo_tcp ?ts = (c, outs, ctl)"
    by (metis prod_cases3)
  then have "ctl = Continue" "stream_read Client outs = [1, 2, 3, 4]"
    by (auto simp: ProxyTcpClient_run_def dropped_read_def recv_buf_id Let_def)
  with run ProxyTcpClient_run_streams [OF run, of Client] show ?thesis
    by (simp add: recv_buf_id)
qed

text \<open>
  C33. Without that proviso bytes are lost in the middle of the stream: after a short write the rest of
  the buffer is dropped and the relay goes on; and a copy that has read but waits to write is
  dropped when the opposite direction completes.
\<close>

theorem tcp_short_write_loses_bytes:
  assumes "n < length bs" and "cs \<noteq> []" and "back \<noteq> []"
    and "length bs \<le> BUF_LEN" "length ds \<le> BUF_LEN" "length cs \<le> BUF_LEN" "length back \<le> BUF_LEN"
  shows "\<exists>outs. ProxyTcpClient_run c
      [Copied sd (Readable (ReadOk bs) [Wrote n]) None,
       Copied (other_side sd) (Readable (ReadOk back) [Wrote (length back)]) (Some ds),
       Copied sd (Readable (ReadOk cs) [Wrote (length cs)]) None] = (c, outs, Continue) \<and>
    stream_read sd outs = bs @ ds @ cs \<and> stream_written (other_side sd) outs = take n bs @ cs"
proof -
  have "bs \<noteq> []" using assms(1) by auto
  with assms show ?thesis
    by (cases sd) (simp_all add: ProxyTcpClient_run_def dropped_read_def recv_buf_id BUF_LEN_def Let_def)
qed

theorem tcp_short_write_loses_bytes_witness:
  "\<exists>outs. ProxyTcpClient_run demo_tcp
      [Copied Client (Readable (ReadOk [1, 2, 3]) [Wrote 1]) None,
       Copied Server (Readable (ReadOk [7]) [Wrote 1]) (Some [4]),
       Copied Client (Readable (ReadOk [5]) [Wrote 1]) None] = (demo_tcp, outs, Continue) \<and>
     stream_read Client outs = [1, 2, 3, 4, 5] \<and> stream_written Server outs = [1, 5]"
  using tcp_short_write_loses_bytes [of 1 "[1, 2, 3]" "[5]" "[7]" "[4]" demo_tcp Client]
  by (simp add: BUF_LEN_def)

section \<open>Reports of the relay and of the endpoint\<close>

fun tcp_report :: "tcp_effect \<Rightarrow> bool" where
  "tcp_report (TcpChanSend _ _) = True"
| "tcp_report (TcpToManager _) = True"
| "tcp_report _ = False"

lemma tcp_step_quiet: "ProxyTcpClient_step c t = (c', outs, ctl) \<Longrightarrow> list_all (\<lambda>x. \<not> tcp_report x) outs"
  by (cases t) (auto simp: Let_def dropped_read_def split: prod.splits poll.splits sum.splits option.splits)

text \<open>
  A TCP relay tells its endpoint that it ended exactly once, as its last action, under the
  address of its client.
\<close>

lemma ProxyTcpClient_reports_end:
  assumes "ProxyTcpClient_run c ts = (c', outs, ctl)"
  shows "\<exists>outs0. list_all (\<lambda>x. \<not> tcp_report x) outs0 \<and>
    outs = outs0 @ (if ctl = Break then [TcpChanSend (tc_msg_tx c) (ClientEnded (tc_addr c))] else [])"
proof -
  note run = assms [unfolded ProxyTcpClient_run_def]
  have "c' = c" by (rule tcp_relay.run_inv [OF refl run])
  with tcp_relay.run_epilogue [OF refl run, of "\<lambda>x. \<not> tcp_report x"] show ?thesis
    using tcp_step_quiet by (auto simp: ProxyTcpClient_finish_def)
qed

text \<open>An endpoint keeps its name; it has panicked only with its loop.\<close>

definition tcp_named :: "Endpoint \<Rightarrow> ProxyTcpEndpoint exec \<Rightarrow> bool" where
  "tcp_named ep st \<longleftrightarrow> (\<forall>s. st = Ret s \<longrightarrow> te_endpoint s = ep)"

lemma tcp_turn_named:
  "ProxyTcpEndpoint_turn resolve tx s e = Ret (s', outs, ctl) \<Longrightarrow>
     te_endpoint s' = te_endpoint s \<and> list_all (\<lambda>x. \<not> tcp_report x) outs"
  by (cases e)
    (auto simp: ProxyTcpClient_new_def Let_def
      split: sum.splits option.splits ProxyClientMsg.splits connect_io.splits if_splits)

lemma tcp_endpoint_step_named:
  assumes "tcp_named ep st" "ProxyTcpEndpoint_step resolve tx st e = (st', outs, ctl)"
  shows "tcp_named ep st'" "list_all (\<lambda>x. \<not> tcp_report x) outs" "st' = Panic \<longrightarrow> ctl = Break"
proof -
  consider "st' = Panic" "outs = []" "ctl = Break"
    | s s' where "st = Ret s" "st' = Ret s'" "ProxyTcpEndpoint_turn resolve tx s e = Ret (s', outs, ctl)"
    using assms(2) unfolding ProxyTcpEndpoint_step_def
    by (auto simp: exec_bind_Ret_iff split: exec.splits)
  then show "tcp_named ep st'" "list_all (\<lambda>x. \<not> tcp_report x) outs" "st' = Panic \<longrightarrow> ctl = Break"
    using assms(1) tcp_turn_named by (cases; auto simp: tcp_named_def)+
qed

interpretation tcp_ep: event_loop "ProxyTcpEndpoint_step resolve tx" ProxyTcpEndpoint_finish "tcp_named ep"
  for resolve tx ep
  by unfold_locales (rule tcp_endpoint_step_named(1))

text \<open>
  A TCP endpoint tells the manager that it ended exactly once, when it leaves its loop, and
  not at all while it runs or when it panicked.
\<close>

lemma ProxyTcpEndpoint_reports_end:
  assumes "ProxyTcpEndpoint_run resolve tx (fst (ProxyTcpEndpoint_new l ep)) es = (st, outs, ctl)"
  shows "\<exists>outs0. list_all (\<lambda>x. \<not> tcp_report x) outs0 \<and>
    outs = outs0 @ (if ctl = Break \<and> st \<noteq> Panic then [TcpToManager (TcpEndpointEnded ep)] else [])"
proof -
  have start: "tcp_named ep (Ret (fst (ProxyTcpEndpoint_new l ep)))"
    by (simp add: tcp_named_def ProxyTcpEndpoint_new_def)
  note run = assms [unfolded ProxyTcpEndpoint_run_def]
  have "tcp_named ep st" by (rule tcp_ep.run_inv [OF start run])
  moreover have "\<exists>outs0. list_all (\<lambda>x. \<not> tcp_report x) outs0 \<and>
      outs = outs0 @ (if ctl = Break then ProxyTcpEndpoint_finish st else [])"
    using tcp_endpoint_step_named(2) by (intro tcp_ep.run_epilogue [OF start run]) blast
  ultimately show ?thesis
    by (auto simp: ProxyTcpEndpoint_finish_def tcp_named_def split: exec.splits)
qed

text \<open>What an endpoint named \<open>ep\<close> may do to the network: connect to its target, start relays of its own.\<close>

fun tcp_own :: "(string \<Rightarrow> SocketAddr list result) \<Rightarrow> chan_id \<Rightarrow> Endpoint \<Rightarrow> tcp_effect \<Rightarrow> bool" where
  "tcp_own resolve tx ep (TcpConnect a) \<longleftrightarrow> (\<exists>rest. resolve (Endpoint_display ep) = Inr (a # rest))"
| "tcp_own resolve tx ep (SpawnTcpClient t c) \<longleftrightarrow> tc_endpoint c = ep \<and> tc_msg_tx c = tx"
| "tcp_own resolve tx ep _ \<longleftrightarrow> True"

lemma tcp_turn_own:
  "ProxyTcpEndpoint_turn resolve tx s e = Ret (s', outs, ctl) \<Longrightarrow>
     list_all (tcp_own resolve tx (te_endpoint s)) outs"
  by (cases e)
    (auto simp: ProxyTcpClient_new_def Let_def iter_next_def
      split: sum.splits option.splits list.splits ProxyClientMsg.splits connect_io.splits if_splits)

lemma tcp_endpoint_step_own:
  assumes "tcp_named ep st" "ProxyTcpEndpoint_step resolve tx st e = (st', outs, ctl)"
  shows "list_all (tcp_own resolve tx ep) outs"
proof (cases st)
  case (Ret s)
  with assms tcp_turn_own [of resolve tx s e] show ?thesis
    unfolding ProxyTcpEndpoint_step_def tcp_named_def by (fastforce split: exec.splits)
qed (use assms(2) in \<open>simp add: ProxyTcpEndpoint_step_def\<close>)

text \<open>
  C30. A TCP endpoint connects only to the address its own target resolves to, and each relay it
  starts belongs to this endpoint and reports to it.
\<close>

theorem ProxyTcpEndpoint_only_target:
  assumes "ProxyTcpEndpoint_run resolve tx (fst (ProxyTcpEndpoint_new l ep)) es = (st, outs, ctl)"
  shows "list_all (tcp_own resolve tx ep) outs"
proof -
  have start: "tcp_named ep (Ret (fst (ProxyTcpEndpoint_new l ep)))"
    by (simp add: tcp_named_def ProxyTcpEndpoint_new_def)
  show ?thesis
  proof (rule tcp_ep.run_outputs [OF start assms [unfolded ProxyTcpEndpoint_run_def]])
    show "list_all (tcp_own resolve tx ep) (ProxyTcpEndpoint_finish st)" if "tcp_named ep st" for st
      by (simp add: ProxyTcpEndpoint_finish_def split: exec.splits)
  qed (rule tcp_endpoint_step_own)
qed

lemmas tcp_endpoint_eval = ProxyTcpEndpoint_run_def ProxyTcpEndpoint_step_def ProxyTcpEndpoint_finish_def
  ProxyTcpEndpoint_new_def ProxyTcpClient_new_def iter_next_def Let_def

abbreviation demo_resolve :: "string \<Rightarrow> SocketAddr list result" where
  "demo_resolve \<equiv> \<lambda>name. if name = ''h:80'' then Inr [V4 1 80] else Inl ''unknown host''"

lemma demo_tcp_display: "Endpoint_display (Endpoint_new 80 ''h'' ''s'') = ''h:80''"
  by code_simp

theorem ProxyTcpEndpoint_only_target_witness:
  "\<exists>st outs. ProxyTcpEndpoint_run demo_resolve 5 (fst (ProxyTcpEndpoint_new 1 (Endpoint_new 80 ''h'' ''s'')))
      [TcpAccept (Inr (2, V4 9 9)) (ConnectOk 3) 4] = (st, outs, Continue) \<and>
     TcpConnect (V4 1 80) \<in> set outs \<and> list_all (tcp_own demo_resolve 5 (Endpoint_new 80 ''h'' ''s'')) outs"
proof -
  obtain st outs ctl where
    run: "ProxyTcpEndpoint_run demo_resolve 5 (fst (ProxyTcpEndpoint_new 1 (Endpoint_new 80 ''h'' ''s'')))
      [TcpAccept (Inr (2, V4 9 9)) (ConnectOk 3) 4] = (st, outs, ctl)"
    by (metis prod_cases3)
  then have "ctl = Continue" "TcpConnect (V4 1 80) \<in> set outs"
    by (auto simp: tcp_endpoint_eval demo_tcp_display)
  with run ProxyTcpEndpoint_only_target [OF run] show ?thesis by blast
qed

lemma ProxyTcpEndpoint_reports_end_witness:
  "\<exists>st outs outs0. ProxyTcpEndpoint_run demo_resolve 5 (fst (ProxyTcpEndpoint_new 1 (Endpoint_new 80 ''h'' ''s'')))
      [TcpIdle] = (st, outs, Break) \<and> outs = outs0 @ [TcpToManager (TcpEndpointEnded (Endpoint_new 80 ''h'' ''s''))]"
proof -
  obtain st outs ctl where
    run: "ProxyTcpEndpoint_run demo_resolve 5 (fst (ProxyTcpEndpoint_new 1 (Endpoint_new 80 ''h'' ''s'')))
      [TcpIdle] = (st, outs, ctl)"
    by (metis prod_cases3)
  then have "ctl = Break" "st \<noteq> Panic"
    by (auto simp: tcp_endpoint_eval)
  with run ProxyTcpEndpoint_reports_end [OF run] show ?thesis by auto
qed

text \<open>
  A target that does not resolve when a connection arrives panics the endpoint's task: its handler
  stays registered with the manager, which is told nothing.
\<close>

lemma tcp_unresolved_target_panics:
  "ProxyTcpEndpoint_run (\<lambda>name. Inl ''unknown host'') tx (fst (ProxyTcpEndpoint_new l ep))
     (TcpAccept (Inr (sock, addr)) conn tid # es) = (Panic, [], Break)"
  by (simp add: tcp_endpoint_eval)

end
