(* ===== verification/Tcp_System.thy ===== *)
theory Tcp_System
  imports Tcp
begin

text \<open>
  A TCP endpoint together with the relays it has started (\<^verbatim>\<open>src/proxy/tcp_clients.rs\<close>): the endpoint
  task, the relay tasks and the channel of their end reports, interleaved in any order.  The endpoint
  keeps plain \<open>JoinHandle\<close>s and detaches the tasks when it is dropped (\<open>ProxyTcpEndpoint_drop\<close>), so that,
  unlike on the UDP paths, the relays do not end with the endpoint.
\<close>

section \<open>The system\<close>

text \<open>
  \<open>z_endpoint\<close> is \<open>None\<close> once the endpoint has ended, panicked or was killed; the channel goes with it.
\<close>

record tcp_sys =
  z_endpoint :: "ProxyTcpEndpoint option"
  z_relays :: "(task_id, ProxyTcpClient) fmap"
  z_reports :: "SocketAddr list"

text \<open>What the runtime does to the relays: an aborted task is gone, a detached one runs on.\<close>

fun tcp_spawn :: "(task_id, ProxyTcpClient) fmap \<Rightarrow> tcp_effect \<Rightarrow> (task_id, ProxyTcpClient) fmap" where
  "tcp_spawn relays (SpawnTcpClient t c) = fmupd t c relays"
| "tcp_spawn relays (AbortTcpTasks ts) = fmfilter (\<lambda>t. t |\<notin>| ts) relays"
| "tcp_spawn relays (DetachTcpTasks ts) = relays"
| "tcp_spawn relays _ = relays"

definition tcp_spawns :: "(task_id, ProxyTcpClient) fmap \<Rightarrow> tcp_effect list \<Rightarrow> (task_id, ProxyTcpClient) fmap" where
  "tcp_spawns relays outs = foldl tcp_spawn relays outs"

text \<open>The endpoint accepts (the new task has an id that is not in use), idles out, or takes a report.\<close>

inductive tcp_takes :: "tcp_sys \<Rightarrow> tcp_endpoint_event \<Rightarrow> SocketAddr list \<Rightarrow> bool" for z where
  take_accept: "fmlookup (z_relays z) tid = None \<Longrightarrow> tcp_takes z (TcpAccept a conn tid) (z_reports z)"
| take_idle: "tcp_takes z TcpIdle (z_reports z)"
| take_report: "z_reports z = pre @ a # post \<Longrightarrow> tcp_takes z (TcpClientRx (Some (ClientEnded a))) (pre @ post)"

inductive_cases tcp_takesE: "tcp_takes z e reports"

abbreviation endpoint_gone :: "tcp_sys \<Rightarrow> tcp_effect list \<Rightarrow> tcp_sys" where
  "endpoint_gone z outs \<equiv> \<lparr>z_endpoint = None, z_relays = tcp_spawns (z_relays z) outs, z_reports = []\<rparr>"

inductive tcp_sys_step :: "(string \<Rightarrow> SocketAddr list result) \<Rightarrow> chan_id \<Rightarrow> tcp_sys \<Rightarrow> tcp_sys \<Rightarrow> bool"
  for resolve tx where
  tcp_turns: "z_endpoint z = Some s \<Longrightarrow> tcp_takes z e reports \<Longrightarrow>
     ProxyTcpEndpoint_turn resolve tx s e = Ret (s', outs, Continue) \<Longrightarrow>
     tcp_sys_step resolve tx z \<lparr>z_endpoint = Some s', z_relays = tcp_spawns (z_relays z) outs, z_reports = reports\<rparr>"
| tcp_ends: "z_endpoint z = Some s \<Longrightarrow> tcp_takes z e reports \<Longrightarrow>
     ProxyTcpEndpoint_turn resolve tx s e = Ret (s', outs, Break) \<Longrightarrow>
     tcp_sys_step resolve tx z (endpoint_gone z (outs @ ProxyTcpEndpoint_finish (Ret s') @ ProxyTcpEndpoint_drop s'))"
| tcp_panics: "z_endpoint z = Some s \<Longrightarrow> tcp_takes z e reports \<Longrightarrow>
     ProxyTcpEndpoint_turn resolve tx s e = Panic \<Longrightarrow>
     tcp_sys_step resolve tx z (endpoint_gone z (ProxyTcpEndpoint_drop s))"
| tcp_killed: "z_endpoint z = Some s \<Longrightarrow> tcp_sys_step resolve tx z (endpoint_gone z (ProxyTcpEndpoint_drop s))"
| tcp_copies: "fmlookup (z_relays z) t = Some r \<Longrightarrow> ProxyTcpClient_step r turn = (r', outs, Continue) \<Longrightarrow>
     tcp_sys_step resolve tx z (z\<lparr>z_relays := fmupd t r' (z_relays z)\<rparr>)"
| tcp_relay_ends: "fmlookup (z_relays z) t = Some r \<Longrightarrow> ProxyTcpClient_step r turn = (r', outs, Break) \<Longrightarrow>
     ProxyTcpClient_finish r' = [TcpChanSend tx (ClientEnded a)] \<Longrightarrow>
     tcp_sys_step resolve tx z
       (z\<lparr>z_relays := fmdrop t (z_relays z),
          z_reports := (if z_endpoint z = None then [] else z_reports z @ [a])\<rparr>)"

definition tcp_sys_new :: "sock_id \<Rightarrow> Endpoint \<Rightarrow> tcp_sys" where
  "tcp_sys_new l ep = \<lparr>z_endpoint = Some (fst (ProxyTcpEndpoint_new l ep)), z_relays = fmempty, z_reports = []\<rparr>"

inductive tcp_sys_reachable :: "(string \<Rightarrow> SocketAddr list result) \<Rightarrow> chan_id \<Rightarrow> sock_id \<Rightarrow> Endpoint \<Rightarrow> tcp_sys \<Rightarrow> bool"
  for resolve tx l ep where
  tcp_init: "tcp_sys_reachable resolve tx l ep (tcp_sys_new l ep)"
| tcp_next: "tcp_sys_reachable resolve tx l ep z \<Longrightarrow> tcp_sys_step resolve tx z z' \<Longrightarrow> tcp_sys_reachable resolve tx l ep z'"

section \<open>The invariant\<close>

text \<open>
  A registered client has a running relay or a report under way; every relay belongs to the endpoint
  and reports on its channel.
\<close>

definition served :: "(task_id, ProxyTcpClient) fmap \<Rightarrow> SocketAddr list \<Rightarrow> SocketAddr \<Rightarrow> task_id \<Rightarrow> bool" where
  "served relays reports a t \<longleftrightarrow> (\<exists>r. fmlookup relays t = Some r \<and> tc_addr r = a) \<or> a \<in> set reports"

definition tcp_sys_ok :: "chan_id \<Rightarrow> Endpoint \<Rightarrow> tcp_sys \<Rightarrow> bool" where
  "tcp_sys_ok tx ep z \<longleftrightarrow>
     (\<forall>t r. fmlookup (z_relays z) t = Some r \<longrightarrow> tc_endpoint r = ep \<and> tc_msg_tx r = tx) \<and>
     (\<forall>s. z_endpoint z = Some s \<longrightarrow> te_endpoint s = ep \<and>
        (\<forall>a t. fmlookup (te_clients s) a = Some t \<longrightarrow> served (z_relays z) (z_reports z) a t))"

lemma tcp_spawns_simps [simp]:
  "tcp_spawns relays [] = relays" "tcp_spawns relays (x # outs) = tcp_spawns (tcp_spawn relays x) outs"
  "tcp_spawns relays (outs @ outs') = tcp_spawns (tcp_spawns relays outs) outs'"
  by (simp_all add: tcp_spawns_def)

text \<open>A turn registers at most one client, whose relay it starts, or unregisters one.\<close>

lemma tcp_turn_cases:
  assumes "ProxyTcpEndpoint_turn resolve tx s e = Ret (s', outs, ctl)"
  obtains (same) "te_clients s' = te_clients s" "\<And>relays. tcp_spawns relays outs = relays"
        "\<And>a. e \<noteq> TcpClientRx (Some (ClientEnded a))"
    | (accepted) tid c where "te_clients s' = fmupd (tc_addr c) tid (te_clients s)"
        "\<And>relays. tcp_spawns relays outs = fmupd tid c relays"
        "tc_endpoint c = te_endpoint s" "tc_msg_tx c = tx" "\<exists>a conn. e = TcpAccept a conn tid" "ctl = Continue"
    | (ended) a where "te_clients s' = fmdrop a (te_clients s)" "\<And>relays. tcp_spawns relays outs = relays"
        "e = TcpClientRx (Some (ClientEnded a))"
proof (cases e)
  case (TcpAccept a conn tid)
  show thesis
  proof (cases "\<exists>stream addr s_stream. a = Inr (stream, addr) \<and> conn = ConnectOk s_stream")
    case True
    then obtain stream addr s_stream where a: "a = Inr (stream, addr)" "conn = ConnectOk s_stream" by blast
    let ?c = "\<lparr>tc_cl_stream = stream, tc_s_stream = s_stream, tc_endpoint = te_endpoint s,
      tc_addr = addr, tc_msg_tx = tx\<rparr>"
    have "te_clients s' = fmupd (tc_addr ?c) tid (te_clients s)"
      "\<And>relays. tcp_spawns relays outs = fmupd tid ?c relays" and ctl: "ctl = Continue"
      using assms TcpAccept a by (auto simp: ProxyTcpClient_new_def split: sum.splits option.splits)
    from this(1,2) show thesis by (rule accepted) (simp_all add: TcpAccept ctl)
  next
    case False
    with assms TcpAccept show thesis
      by (intro same) (auto simp: ProxyTcpClient_new_def split: sum.splits option.splits connect_io.splits)
  qed
next
  case (TcpClientRx b)
  show thesis
  proof (cases "\<exists>a. b = Some (ClientEnded a)")
    case True
    then obtain a where "b = Some (ClientEnded a)" ..
    with assms TcpClientRx show thesis by (intro ended [of a]) (auto simp: Let_def)
  next
    case False
    with assms TcpClientRx show thesis
      by (intro same) (auto split: option.splits ProxyClientMsg.splits)
  qed
next
  case TcpIdle
  with assms show thesis by (intro same) auto
qed

lemma tcp_takes_reports:
  assumes "tcp_takes z e reports"
  shows "set (z_reports z) \<subseteq> set reports \<union> {a. e = TcpClientRx (Some (ClientEnded a))}"
  using assms by cases auto

lemma served_mono:
  "served relays reports a t \<Longrightarrow> set reports \<subseteq> set reports' \<union> {b} \<Longrightarrow> a \<noteq> b \<Longrightarrow> served relays reports' a t"
  by (auto simp: served_def)

lemma served_spawn:
  "served relays reports a t \<Longrightarrow> fmlookup relays tid = None \<Longrightarrow> served (fmupd tid c relays) reports a t"
  by (auto simp: served_def)

lemma tcp_turn_ok:
  assumes ok: "tcp_sys_ok tx ep z" and s: "z_endpoint z = Some s" and tk: "tcp_takes z e reports"
    and turn: "ProxyTcpEndpoint_turn resolve tx s e = Ret (s', outs, ctl)"
  shows "tcp_sys_ok tx ep \<lparr>z_endpoint = Some s', z_relays = tcp_spawns (z_relays z) outs, z_reports = reports\<rparr>"
proof -
  have name: "te_endpoint s = ep" "te_endpoint s' = ep"
    using ok s tcp_turn_named [OF turn] by (simp_all add: tcp_sys_ok_def)
  have served: "served (z_relays z) (z_reports z) a t" if "fmlookup (te_clients s) a = Some t" for a t
    using ok s that by (simp add: tcp_sys_ok_def)
  note rep = tcp_takes_reports [OF tk]
  from turn show ?thesis
  proof (cases rule: tcp_turn_cases)
    case same
    have "served (z_relays z) reports a t" if "fmlookup (te_clients s) a = Some t" for a t
      using served [OF that] rep same(3) by (auto simp: served_def)
    then show ?thesis using ok name same(1,2) by (simp add: tcp_sys_ok_def)
  next
    case (accepted tid c)
    have fresh: "fmlookup (z_relays z) tid = None" and reports: "reports = z_reports z"
      using tk accepted(5) by (auto elim: tcp_takesE)
    have "served (fmupd tid c (z_relays z)) reports a t"
      if "fmlookup (fmupd (tc_addr c) tid (te_clients s)) a = Some t" for a t
    proof (cases "a = tc_addr c")
      case True
      with that show ?thesis by (auto simp: served_def)
    next
      case False
      with that served_spawn [OF served fresh] show ?thesis by (simp add: reports)
    qed
    then show ?thesis using ok name accepted(1-4) by (simp add: tcp_sys_ok_def)
  next
    case (ended a)
    have "served (z_relays z) reports b t" if "fmlookup (fmdrop a (te_clients s)) b = Some t" for b t
    proof -
      have "b \<noteq> a" "fmlookup (te_clients s) b = Some t" using that by (auto split: if_splits)
      moreover have "set (z_reports z) \<subseteq> set reports \<union> {a}" using rep by (simp add: ended(3))
      ultimately show ?thesis using served_mono [OF served] by blast
    qed
    then show ?thesis using ok name ended(1,2) by (simp add: tcp_sys_ok_def)
  qed
qed

lemma tcp_gone_ok:
  assumes "tcp_sys_ok tx ep z" "tcp_spawns (z_relays z) outs = z_relays z"
  shows "tcp_sys_ok tx ep (endpoint_gone z outs)"
  using assms by (simp add: tcp_sys_ok_def)

lemma tcp_drop_spawns [simp]: "tcp_spawns relays (ProxyTcpEndpoint_drop s) = relays"
  by (simp add: ProxyTcpEndpoint_drop_def)

lemma tcp_break_spawns:
  assumes "ProxyTcpEndpoint_turn resolve tx s e = Ret (s', outs, Break)"
  shows "tcp_spawns relays (outs @ ProxyTcpEndpoint_finish (Ret s') @ ProxyTcpEndpoint_drop s') = relays"
proof -
  have "tcp_spawns relays outs = relays" for relays
    using assms by (cases rule: tcp_turn_cases) simp_all
  then show ?thesis by (simp add: ProxyTcpEndpoint_finish_def)
qed

lemma tcp_relay_end_ok:
  assumes ok: "tcp_sys_ok tx ep z" and r: "fmlookup (z_relays z) t = Some r"
  shows "tcp_sys_ok tx ep (z\<lparr>z_relays := fmdrop t (z_relays z),
    z_reports := (if z_endpoint z = None then [] else z_reports z @ [tc_addr r])\<rparr>)"
proof -
  have "served (fmdrop t (z_relays z)) (z_reports z @ [tc_addr r]) a u"
    if "served (z_relays z) (z_reports z) a u" for a u
    using that r by (cases "u = t") (auto simp: served_def)
  with ok show ?thesis by (auto simp: tcp_sys_ok_def)
qed

lemma tcp_sys_step_ok:
  assumes "tcp_sys_step resolve tx z z'" "tcp_sys_ok tx ep z"
  shows "tcp_sys_ok tx ep z'"
  using assms(1)
proof cases
  case tcp_turns
  with tcp_turn_ok [OF assms(2)] show ?thesis by blast
next
  case (tcp_ends s e reports s' outs)
  with tcp_gone_ok [OF assms(2)] tcp_break_spawns show ?thesis by blast
next
  case (tcp_copies t r turn r' outs)
  have "r' = r" by (rule tcp_step_state [OF tcp_copies(3)])
  with tcp_copies(2) have "fmupd t r' (z_relays z) = z_relays z" by (intro fmap_ext) auto
  with tcp_copies(1) assms(2) show ?thesis by simp
next
  case (tcp_relay_ends t r turn r' outs a)
  have "a = tc_addr r" 
    using tcp_step_state [OF tcp_relay_ends(3)] tcp_relay_ends(4) by (simp add: ProxyTcpClient_finish_def)
  with tcp_relay_end_ok [OF assms(2) tcp_relay_ends(2)] show ?thesis unfolding tcp_relay_ends(1) by (simp only:)
next
  case (tcp_panics s e reports)
  with tcp_gone_ok [OF assms(2)] tcp_drop_spawns show ?thesis by blast
next
  case (tcp_killed s)
  with tcp_gone_ok [OF assms(2)] tcp_drop_spawns show ?thesis by blast
qed

lemma tcp_sys_reachable_ok: "tcp_sys_reachable resolve tx l ep z \<Longrightarrow> tcp_sys_ok tx ep z"
proof (induction rule: tcp_sys_reachable.induct)
  case tcp_init
  show ?case by (simp add: tcp_sys_ok_def tcp_sys_new_def ProxyTcpEndpoint_new_def)
qed (rule tcp_sys_step_ok)

section \<open>How long an endpoint and its relays live\<close>

text \<open>
  C31. A TCP endpoint under any interleaving with its relays: while it runs, each registered client has
  a running relay, of this endpoint and for this client, or its end report is under way; and once no
  relay runs, taking the last report ends the endpoint.
\<close>

theorem tcp_endpoint_lives_with_clients:
  assumes "tcp_sys_reachable resolve tx l ep z" and "z_endpoint z = Some s"
  shows "(\<forall>a t. fmlookup (te_clients s) a = Some t \<longrightarrow> a \<notin> set (z_reports z) \<longrightarrow>
      (\<exists>r. fmlookup (z_relays z) t = Some r \<and> tc_addr r = a \<and> tc_endpoint r = ep)) \<and>
    (z_relays z = fmempty \<longrightarrow> z_reports z = [a] \<longrightarrow>
      (\<exists>s'. ProxyTcpEndpoint_turn resolve tx s (TcpClientRx (Some (ClientEnded a))) = Ret (s', [], Break)))"
proof -
  have ok: "tcp_sys_ok tx ep z" by (rule tcp_sys_reachable_ok [OF assms(1)])
  have "fmdrop a (te_clients s) = fmempty" if "z_relays z = fmempty" "z_reports z = [a]"
  proof (rule fmap_ext)
    show "fmlookup (fmdrop a (te_clients s)) b = fmlookup fmempty b" for b
      using ok assms(2) that by (cases "fmlookup (te_clients s) b") (auto simp: tcp_sys_ok_def served_def)
  qed
  then have "z_relays z = fmempty \<longrightarrow> z_reports z = [a] \<longrightarrow>
      (\<exists>s'. ProxyTcpEndpoint_turn resolve tx s (TcpClientRx (Some (ClientEnded a))) = Ret (s', [], Break))"
    by simp
  moreover have "\<exists>r. fmlookup (z_relays z) t = Some r \<and> tc_addr r = b \<and> tc_endpoint r = ep"
    if "fmlookup (te_clients s) b = Some t" "b \<notin> set (z_reports z)" for b t
    using ok assms(2) that by (fastforce simp: tcp_sys_ok_def served_def)
  ultimately show ?thesis by blast
qed

lemma tcp_end_keeps_relays:
  assumes "tcp_sys_step resolve tx z z'" "z_endpoint z = Some s" "z_endpoint z' = None"
  shows "z_relays z' = z_relays z"
  using assms(1)
proof cases
  case (tcp_ends s e reports s' outs)
  then show ?thesis by (simp only: tcp_break_spawns tcp_sys.select_convs)
qed (use assms(2,3) in simp_all)

text \<open>A relay goes in a step of its own, which leaves the endpoint as it is.\<close>

lemma tcp_relay_goes:
  assumes "tcp_sys_step resolve tx z z'" "fmlookup (z_relays z) t = Some r" "fmlookup (z_relays z') t \<noteq> Some r"
  shows "z_endpoint z' = z_endpoint z \<and> z_relays z' = fmdrop t (z_relays z) \<and>
    (z_endpoint z \<noteq> None \<longrightarrow> z_reports z' = z_reports z @ [tc_addr r])"
  using assms(1)
proof cases
  case (tcp_turns s e reports s' outs)
  from tcp_turns(4) show ?thesis
  proof (cases rule: tcp_turn_cases)
    case (accepted tid c)
    with tcp_turns(3) have "fmlookup (z_relays z) tid = None" by (auto elim: tcp_takesE)
    with accepted(2) tcp_turns(1) assms(2,3) show ?thesis by (auto split: if_splits)
  qed (use tcp_turns(1) assms(2,3) in simp_all)
next
  case (tcp_ends s e reports s' outs)
  with assms(2,3) tcp_break_spawns [OF tcp_ends(4)] show ?thesis by simp
next
  case (tcp_copies u q turn q' outs)
  with assms(2,3) tcp_step_state [OF tcp_copies(3)] show ?thesis by (auto split: if_splits)
next
  case (tcp_relay_ends u q turn q' outs a)
  then have "u = t" using assms(2,3) by (auto split: if_splits)
  with tcp_relay_ends assms(2) tcp_step_state [OF tcp_relay_ends(3)] show ?thesis
    by (auto simp: ProxyTcpClient_finish_def)
qed (use assms(2,3) in simp_all)

text \<open>
  C32. The relays of a TCP endpoint outlive it.  The endpoint can be killed at any time, which is
  what the deletion of its port does; killing it, its panic and its regular end drop its table of
  handles and leave every relay running.  Neither then nor later does anything stop a relay but a
  step of its own: a relay that goes leaves the endpoint, the other relays and, while the endpoint
  lives, its report behind.
\<close>

theorem tcp_relays_outlive_endpoint:
  assumes "tcp_sys_reachable resolve tx l ep z" and "z_endpoint z = Some s"
    and "fmlookup (z_relays z) t = Some r"
  shows "(\<exists>z'. tcp_sys_step resolve tx z z' \<and> z_endpoint z' = None) \<and>
    (\<forall>z'. tcp_sys_step resolve tx z z' \<and> z_endpoint z' = None \<longrightarrow> fmlookup (z_relays z') t = Some r) \<and>
    (\<forall>z1 z2. tcp_sys_step resolve tx z1 z2 \<and> fmlookup (z_relays z1) t = Some r \<and> fmlookup (z_relays z2) t \<noteq> Some r \<longrightarrow>
       z_endpoint z2 = z_endpoint z1 \<and> z_relays z2 = fmdrop t (z_relays z1) \<and>
       (z_endpoint z1 \<noteq> None \<longrightarrow> z_reports z2 = z_reports z1 @ [tc_addr r])) \<and>
    tcp_spawns (z_relays z) (ProxyTcpEndpoint_drop s) = z_relays z \<and> tc_endpoint r = ep"
proof -
  have "tc_endpoint r = ep"
    using tcp_sys_reachable_ok [OF assms(1)] assms(3) by (simp add: tcp_sys_ok_def)
  moreover have "\<exists>z'. tcp_sys_step resolve tx z z' \<and> z_endpoint z' = None"
    using tcp_killed [OF assms(2), of resolve tx] by (metis tcp_sys.select_convs(1))
  moreover have "fmlookup (z_relays z') t = Some r" if "tcp_sys_step resolve tx z z'" "z_endpoint z' = None" for z'
    using tcp_end_keeps_relays [OF that(1) assms(2) that(2)] assms(3) by simp
  ultimately show ?thesis
    using tcp_relay_goes [of resolve tx _ _ t r] by simp
qed

section \<open>Witnesses\<close>

abbreviation demo_conn :: ProxyTcpClient where
  "demo_conn \<equiv> \<lparr>tc_cl_stream = 2, tc_s_stream = 3, tc_endpoint = Endpoint_new 80 ''h'' ''s'', tc_addr = V4 9 9, tc_msg_tx = 5\<rparr>"

abbreviation demo_tcp_sys :: tcp_sys where
  "demo_tcp_sys \<equiv> \<lparr>z_endpoint = Some \<lparr>te_tcp_listener = 1, te_endpoint = Endpoint_new 80 ''h'' ''s'',
       te_clients = fmupd (V4 9 9) 4 fmempty\<rparr>,
     z_relays = fmupd 4 demo_conn fmempty, z_reports = []\<rparr>"

lemma demo_tcp_reachable: "tcp_sys_reachable demo_resolve 5 1 (Endpoint_new 80 ''h'' ''s'') demo_tcp_sys"
proof -
  let ?z = "tcp_sys_new 1 (Endpoint_new 80 ''h'' ''s'')"
  let ?s = "\<lparr>te_tcp_listener = 1, te_endpoint = Endpoint_new 80 ''h'' ''s'', te_clients = fmempty\<rparr>"
  let ?e = "TcpAccept (Inr (2, V4 9 9)) (ConnectOk 3) 4"
  have z: "z_endpoint ?z = Some ?s" "fmlookup (z_relays ?z) 4 = None"
    by (simp_all add: tcp_sys_new_def ProxyTcpEndpoint_new_def)
  have "ProxyTcpEndpoint_turn demo_resolve 5 ?s ?e =
      Ret (?s\<lparr>te_clients := fmupd (V4 9 9) 4 fmempty\<rparr>,
        [TcpConnect (V4 1 80), TcpIncr TCP_CONNECTION_TO_SRV, SpawnTcpClient 4 demo_conn], Continue)"
    by (simp add: tcp_endpoint_eval demo_tcp_display)
  from tcp_turns [OF z(1) take_accept [OF z(2)] this] have "tcp_sys_step demo_resolve 5 ?z demo_tcp_sys"
    by (simp add: tcp_sys_new_def)
  from tcp_next [OF tcp_init this] show ?thesis .
qed

theorem tcp_endpoint_lives_with_clients_witness:
  "\<exists>s r. z_endpoint demo_tcp_sys = Some s \<and> fmlookup (te_clients s) (V4 9 9) = Some 4 \<and>
     fmlookup (z_relays demo_tcp_sys) 4 = Some r \<and> tc_addr r = V4 9 9"
  using tcp_endpoint_lives_with_clients [OF demo_tcp_reachable, of _ "V4 9 9"] by simp

theorem tcp_relays_outlive_endpoint_witness:
  "\<exists>z'. tcp_sys_step demo_resolve 5 demo_tcp_sys z' \<and> z_endpoint z' = None \<and> fmlookup (z_relays z') 4 = Some demo_conn"
proof -
  have run: "z_endpoint demo_tcp_sys = Some (the (z_endpoint demo_tcp_sys))" "fmlookup (z_relays demo_tcp_sys) 4 = Some demo_conn"
    by simp_all
  note outlive = tcp_relays_outlive_endpoint [OF demo_tcp_reachable run]
  from outlive [THEN conjunct1] obtain z' where "tcp_sys_step demo_resolve 5 demo_tcp_sys z'" "z_endpoint z' = None" by blast
  then show ?thesis using outlive [THEN conjunct2, THEN conjunct1] by blast
qed

end
