(* ===== verification/Manager_Task.thy ===== *)
theory Manager_Task
  imports Udp_Client Tcp
begin

text \<open>
  The task behind the manager's channel, \<^verbatim>\<open>src/proxy.rs\<close>: the loop of \<open>ProxyManager::new\<close> over its
  two tables of endpoint handlers and the four \<open>create/delete_{udp,tcp}_proxy_impl\<close>.  The locale
  \<open>proxy_table\<close> is the contract the two tables share.  The main results: no endpoint task is ever
  lost track of, and every request is answered exactly once with an answer of its own kind.
\<close>

section \<open>State\<close>

text \<open>
  What the code calls and does not define: name resolution on a pair of host and port, name
  resolution on a printed address, and the derived \<open>Debug\<close> form of an endpoint.
\<close>

record Env =
  env_resolve :: "string \<Rightarrow> u16 \<Rightarrow> SocketAddr list result"
  env_resolve_str :: "string \<Rightarrow> SocketAddr list result"
  env_debug :: "Endpoint \<Rightarrow> string"

record ManagerTask =
  mt_udp_proxy :: "(Endpoint, ProxyEndpointHandler) fmap"
  mt_tcp_proxy :: "(Endpoint, ProxyTcpEndpointHandler) fmap"

datatype mgr_effect =
    OfUdp udp_effect
  | OfTcp tcp_effect
  | Respond oneshot_id ProxyManagerMsg

section \<open>The tables of handlers\<close>

definition create_udp_proxy_impl :: "Env \<Rightarrow> (Endpoint, ProxyEndpointHandler) fmap \<Rightarrow> Endpoint \<Rightarrow> bind_io
    \<Rightarrow> u16 result \<times> (Endpoint, ProxyEndpointHandler) fmap \<times> udp_effect list" where
  "create_udp_proxy_impl env udp_proxy ep io =
     (case fmlookup udp_proxy ep of
        Some oe \<Rightarrow> (Inr (eh_local_port oe), udp_proxy, [])
      | None \<Rightarrow>
          (case ProxyEndpointHandler_new (env_resolve env) ep io of
             (Inl e, effs) \<Rightarrow> (Inl e, udp_proxy, effs)
           | (Inr pe, effs) \<Rightarrow> (Inr (eh_local_port pe), fmupd ep pe udp_proxy, effs)))"

definition create_tcp_proxy_impl :: "(Endpoint, ProxyTcpEndpointHandler) fmap \<Rightarrow> Endpoint \<Rightarrow> listen_io
    \<Rightarrow> u16 result \<times> (Endpoint, ProxyTcpEndpointHandler) fmap \<times> tcp_effect list" where
  "create_tcp_proxy_impl tcp_proxy ep io =
     (case fmlookup tcp_proxy ep of
        Some oe \<Rightarrow> (Inr (th_local_port oe), tcp_proxy, [])
      | None \<Rightarrow>
          (case ProxyTcpEndpointHandler_new ep io of
             (Inl e, effs) \<Rightarrow> (Inl e, tcp_proxy, effs)
           | (Inr pe, effs) \<Rightarrow> (Inr (th_local_port pe), fmupd ep pe tcp_proxy, effs)))"

definition no_proxy :: "Env \<Rightarrow> Endpoint \<Rightarrow> err" where
  "no_proxy env ep = ''There aren'' @ [CHR 0x27] @ ''t proxy to delete for '' @ env_debug env ep"

definition delete_udp_proxy_impl :: "Env \<Rightarrow> (Endpoint, ProxyEndpointHandler) fmap \<Rightarrow> Endpoint
    \<Rightarrow> unit result \<times> (Endpoint, ProxyEndpointHandler) fmap \<times> udp_effect list" where
  "delete_udp_proxy_impl env udp_proxy ep =
     (case fmlookup udp_proxy ep of
        Some handler \<Rightarrow> (Inr (), fmdrop ep udp_proxy, ProxyEndpointHandler_kill handler)
      | None \<Rightarrow> (Inl (no_proxy env ep), udp_proxy, []))"

definition delete_tcp_proxy_impl :: "Env \<Rightarrow> (Endpoint, ProxyTcpEndpointHandler) fmap \<Rightarrow> Endpoint
    \<Rightarrow> unit result \<times> (Endpoint, ProxyTcpEndpointHandler) fmap \<times> tcp_effect list" where
  "delete_tcp_proxy_impl env tcp_proxy ep =
     (case fmlookup tcp_proxy ep of
        Some handler \<Rightarrow> (Inr (), fmdrop ep tcp_proxy, ProxyTcpEndpointHandler_kill handler)
      | None \<Rightarrow> (Inl (no_proxy env ep), tcp_proxy, []))"

section \<open>The loop\<close>

text \<open>The results of the runtime calls a message may lead to.\<close>

record mgr_io =
  mio_bind :: bind_io
  mio_listen :: listen_io

text \<open>
  One message.  A message that is not meant for the task leaves the inner loop, and the outer one
  starts it again: nothing changes.  The task holds a sender of its own channel, so \<open>recv\<close> does
  not return \<open>None\<close>.
\<close>

fun manager_handle :: "Env \<Rightarrow> ManagerTask \<Rightarrow> mgr_io \<Rightarrow> ProxyManagerMsg \<Rightarrow> ManagerTask \<times> mgr_effect list" where
  "manager_handle env s io (CreateTcpProxy respond_to ep) =
     (case create_tcp_proxy_impl (mt_tcp_proxy s) ep (mio_listen io) of
        (r, m, effs) \<Rightarrow>
          (s\<lparr>mt_tcp_proxy := m\<rparr>,
           map OfTcp effs @
           [Respond respond_to (case r of Inr p \<Rightarrow> CreateTcpProxyRs p | Inl e \<Rightarrow> TcpProxyErrorRs e)]))"
| "manager_handle env s io (CreateUdpProxy respond_to ep) =
     (case create_udp_proxy_impl env (mt_udp_proxy s) ep (mio_bind io) of
        (r, m, effs) \<Rightarrow>
          (s\<lparr>mt_udp_proxy := m\<rparr>,
           map OfUdp effs @
           [Respond respond_to (case r of Inr p \<Rightarrow> CreateUdpProxyRs p | Inl e \<Rightarrow> UdpProxyErrorRs e)]))"
| "manager_handle env s io (DeleteTcpProxy respond_to ep) =
     (case delete_tcp_proxy_impl env (mt_tcp_proxy s) ep of
        (r, m, effs) \<Rightarrow>
          (s\<lparr>mt_tcp_proxy := m\<rparr>,
           map OfTcp effs @
           [Respond respond_to (case r of Inr u \<Rightarrow> DeleteTcpProxyRs | Inl e \<Rightarrow> TcpProxyErrorRs e)]))"
| "manager_handle env s io (DeleteUdpProxy respond_to ep) =
     (case delete_udp_proxy_impl env (mt_udp_proxy s) ep of
        (r, m, effs) \<Rightarrow>
          (s\<lparr>mt_udp_proxy := m\<rparr>,
           map OfUdp effs @
           [Respond respond_to (case r of Inr u \<Rightarrow> DeleteUdpProxyRs | Inl e \<Rightarrow> UdpProxyErrorRs e)]))"
| "manager_handle env s io (UdpEndpointEnded ep) =
     (case delete_udp_proxy_impl env (mt_udp_proxy s) ep of
        (r, m, effs) \<Rightarrow> (s\<lparr>mt_udp_proxy := m\<rparr>, map OfUdp effs))"
| "manager_handle env s io (TcpEndpointEnded ep) =
     (case delete_tcp_proxy_impl env (mt_tcp_proxy s) ep of
        (r, m, effs) \<Rightarrow> (s\<lparr>mt_tcp_proxy := m\<rparr>, map OfTcp effs))"
| "manager_handle env s io _ = (s, [])"

definition manager_step :: "Env \<Rightarrow> (ManagerTask, ProxyManagerMsg \<times> mgr_io, mgr_effect) loop_step" where
  "manager_step env s e =
     (case e of (msg, io) \<Rightarrow> (case manager_handle env s io msg of (s', effs) \<Rightarrow> (s', effs, Continue)))"

text \<open>The messages of a queue, one after the other; the loop does not end.\<close>

definition manager_run :: "Env \<Rightarrow> ManagerTask \<Rightarrow> (ProxyManagerMsg \<times> mgr_io) list \<Rightarrow> ManagerTask \<times> mgr_effect list" where
  "manager_run env s q =
     (case run_loop (manager_step env) (\<lambda>_. []) s q of (s', effs, ctl) \<Rightarrow> (s', effs))"

definition manager_new :: ManagerTask where
  "manager_new = \<lparr>mt_udp_proxy = fmempty, mt_tcp_proxy = fmempty\<rparr>"

section \<open>The contract of a handler table\<close>

locale proxy_table =
  fixes port_of :: "'h \<Rightarrow> u16"
    and create :: "('k, 'h) fmap \<Rightarrow> 'k \<Rightarrow> 'io \<Rightarrow> u16 result \<times> ('k, 'h) fmap \<times> 'o list"
    and delete :: "('k, 'h) fmap \<Rightarrow> 'k \<Rightarrow> unit result \<times> ('k, 'h) fmap \<times> 'o list"
    and started :: "'o \<Rightarrow> task_id set"
    and stopped :: "'o \<Rightarrow> task_id set"
    and task_of :: "'h \<Rightarrow> task_id"
  assumes create_known: "fmlookup m k = Some h \<Longrightarrow> create m k io = (Inr (port_of h), m, [])"
    and create_fresh: "fmlookup m k = None \<Longrightarrow> create m k io = (Inr p, m', effs) \<Longrightarrow>
      \<exists>h. m' = fmupd k h m \<and> port_of h = p \<and> \<Union> (started ` set effs) = {task_of h}"
    and create_failed: "create m k io = (Inl e, m', effs) \<Longrightarrow> m' = m \<and> effs = []"
    and delete_known: "fmlookup m k = Some h \<Longrightarrow>
      \<exists>effs. delete m k = (Inr (), fmdrop k m, effs) \<and> \<Union> (stopped ` set effs) = {task_of h} \<and>
        \<Union> (started ` set effs) = {}"
    and delete_unknown: "fmlookup m k = None \<Longrightarrow> \<exists>e. delete m k = (Inl e, m, [])"
begin

definition tasks :: "('k, 'h) fmap \<Rightarrow> task_id set" where
  "tasks m = {task_of h | k h. fmlookup m k = Some h}"

lemma tasks_upd: "fmlookup m k = None \<Longrightarrow> tasks (fmupd k h m) = insert (task_of h) (tasks m)"
  unfolding tasks_def by (simp; safe) (metis option.distinct(1) | blast)+

lemma create_cases:
  assumes "create m k io = (r, m', effs)"
  obtains
    (known) h where "fmlookup m k = Some h" "r = Inr (port_of h)" "m' = m" "effs = []"
  | (fresh) h where "fmlookup m k = None" "r = Inr (port_of h)" "m' = fmupd k h m"
      "\<Union> (started ` set effs) = {task_of h}"
  | (failed) e where "fmlookup m k = None" "r = Inl e" "m' = m" "effs = []"
proof (cases "fmlookup m k")
  case (Some h)
  with assms show thesis using create_known [OF Some, of io] by (intro known) auto
next
  case None
  then show thesis
  proof (cases r)
    case (Inl e)
    with None assms create_failed show thesis by (intro failed [of e]) blast+
  next
    case (Inr p)
    with None assms create_fresh show thesis by (metis fresh)
  qed
qed

text \<open>A created endpoint is found under its key with the port that was answered; others are untouched.\<close>

lemma create_lookup:
  assumes "create m k io = (Inr p, m', effs)"
  shows "map_option port_of (fmlookup m' k) = Some p" and "k' \<noteq> k \<Longrightarrow> fmlookup m' k' = fmlookup m k'"
  using assms by (cases rule: create_cases; auto)+

lemma create_keeps: "create m k io = (r, m', effs) \<Longrightarrow> fmlookup m k' = Some h \<Longrightarrow> fmlookup m' k' = Some h"
  by (erule create_cases) auto

lemma create_again:
  assumes "create m k io = (Inr p, m', effs)"
  shows "create m' k io' = (Inr p, m', [])"
  using create_lookup(1) [OF assms] create_known [of m' k _ io'] by auto

lemma create_delete:
  assumes "fmlookup m k = None" "create m k io = (Inr p, m', effs)"
  shows "\<exists>effs'. delete m' k = (Inr (), m, effs') \<and> \<Union> (stopped ` set effs') = \<Union> (started ` set effs)"
proof -
  obtain h where h: "m' = fmupd k h m" "\<Union> (started ` set effs) = {task_of h}"
    using create_fresh [OF assms] by blast
  moreover have "fmdrop k (fmupd k h m) = m"
    using assms(1) by (simp add: fmdrop_fmupd_if fmdrop_absent)
  ultimately show ?thesis
    using delete_known [of m' k h] by auto
qed

lemma delete_lookup:
  assumes "delete m k = (r, m', effs)"
  shows "fmlookup m' k = None" and "k' \<noteq> k \<Longrightarrow> fmlookup m' k' = fmlookup m k'"
  using assms delete_known [of m k] delete_unknown [of m k] by (cases "fmlookup m k"; auto)+

lemma create_balance:
  assumes "create m k io = (r, m', effs)"
  shows "tasks m \<union> \<Union> (started ` set effs) \<subseteq> tasks m' \<union> \<Union> (stopped ` set effs)"
  using assms
proof (cases rule: create_cases)
  case (fresh h)
  then show ?thesis using tasks_upd [OF fresh(1), of h] by blast
qed simp_all

lemma delete_balance:
  assumes "delete m k = (r, m', effs)"
  shows "tasks m \<union> \<Union> (started ` set effs) \<subseteq> tasks m' \<union> \<Union> (stopped ` set effs)"
proof (cases "fmlookup m k")
  case (Some h)
  then obtain effs' where "delete m k = (Inr (), fmdrop k m, effs')"
    "\<Union> (stopped ` set effs') = {task_of h}" "\<Union> (started ` set effs') = {}"
    using delete_known [OF Some] by (elim exE conjE)
  moreover have "tasks m \<subseteq> insert (task_of h) (tasks (fmdrop k m))"
    unfolding tasks_def using Some by auto
  ultimately show ?thesis using assms by auto
next
  case None
  with assms delete_unknown [of m k] show ?thesis by auto
qed

end

section \<open>The two tables\<close>

fun endpoint_spawned :: "udp_effect \<Rightarrow> task_id set" where
  "endpoint_spawned (SpawnEndpoint t s) = {t}"
| "endpoint_spawned _ = {}"

fun endpoint_aborted :: "udp_effect \<Rightarrow> task_id set" where
  "endpoint_aborted (AbortEndpoint t) = {t}"
| "endpoint_aborted _ = {}"

fun tcp_endpoint_spawned :: "tcp_effect \<Rightarrow> task_id set" where
  "tcp_endpoint_spawned (SpawnTcpEndpoint t s) = {t}"
| "tcp_endpoint_spawned _ = {}"

fun tcp_endpoint_aborted :: "tcp_effect \<Rightarrow> task_id set" where
  "tcp_endpoint_aborted (AbortTcpTasks ts) = fset ts"
| "tcp_endpoint_aborted _ = {}"

lemmas udp_impl_defs = create_udp_proxy_impl_def delete_udp_proxy_impl_def ProxyEndpointHandler_new_def
  ProxyEndpointHandler_kill_def ProxyEndpoint_new_def

lemmas tcp_impl_defs = create_tcp_proxy_impl_def delete_tcp_proxy_impl_def ProxyTcpEndpointHandler_new_def
  ProxyTcpEndpointHandler_kill_def ProxyTcpEndpoint_new_def

interpretation udp_table: proxy_table eh_local_port "create_udp_proxy_impl env" "delete_udp_proxy_impl env"
  endpoint_spawned endpoint_aborted eh_handle for env
  by unfold_locales (auto simp: udp_impl_defs split: option.splits sum.splits bind_io.splits)

interpretation tcp_table: proxy_table th_local_port create_tcp_proxy_impl "delete_tcp_proxy_impl env"
  tcp_endpoint_spawned tcp_endpoint_aborted th_endpoint_handle for env
  by unfold_locales (auto simp: tcp_impl_defs split: option.splits listen_io.splits)

section \<open>Ownership of endpoint tasks\<close>

fun task_started :: "mgr_effect \<Rightarrow> task_id set" where
  "task_started (OfUdp x) = endpoint_spawned x"
| "task_started (OfTcp x) = tcp_endpoint_spawned x"
| "task_started _ = {}"

fun task_stopped :: "mgr_effect \<Rightarrow> task_id set" where
  "task_stopped (OfUdp x) = endpoint_aborted x"
| "task_stopped (OfTcp x) = tcp_endpoint_aborted x"
| "task_stopped _ = {}"

definition manager_tasks :: "ManagerTask \<Rightarrow> task_id set" where
  "manager_tasks s = udp_table.tasks (mt_udp_proxy s) \<union> tcp_table.tasks (mt_tcp_proxy s)"

lemma started_map [simp]:
  "\<Union> (task_started ` (OfUdp ` A)) = \<Union> (endpoint_spawned ` A)"
  "\<Union> (task_started ` (OfTcp ` B)) = \<Union> (tcp_endpoint_spawned ` B)"
  "\<Union> (task_stopped ` (OfUdp ` A)) = \<Union> (endpoint_aborted ` A)"
  "\<Union> (task_stopped ` (OfTcp ` B)) = \<Union> (tcp_endpoint_aborted ` B)"
  by auto

definition tracked :: "ManagerTask \<Rightarrow> mgr_effect list \<Rightarrow> ManagerTask \<Rightarrow> bool" where
  "tracked s effs s' \<longleftrightarrow>
     manager_tasks s \<union> \<Union> (task_started ` set effs) \<subseteq> manager_tasks s' \<union> \<Union> (task_stopped ` set effs)"

lemma tracked_same: "tracked s [] s"
  by (simp add: tracked_def)

lemma tracked_answer: "tracked s effs s' \<Longrightarrow> tracked s (effs @ [Respond rt m]) s'"
  by (auto simp: tracked_def)

lemma tracked_udp:
  "udp_table.tasks (mt_udp_proxy s) \<union> \<Union> (endpoint_spawned ` set es) \<subseteq>
     udp_table.tasks m \<union> \<Union> (endpoint_aborted ` set es) \<Longrightarrow>
   tracked s (map OfUdp es) (s\<lparr>mt_udp_proxy := m\<rparr>)"
  by (simp add: tracked_def manager_tasks_def) blast

lemma tracked_tcp:
  "tcp_table.tasks (mt_tcp_proxy s) \<union> \<Union> (tcp_endpoint_spawned ` set es) \<subseteq>
     tcp_table.tasks m \<union> \<Union> (tcp_endpoint_aborted ` set es) \<Longrightarrow>
   tracked s (map OfTcp es) (s\<lparr>mt_tcp_proxy := m\<rparr>)"
  by (simp add: tracked_def manager_tasks_def) blast

lemmas tracked_impls = tracked_udp [OF udp_table.create_balance] tracked_udp [OF udp_table.delete_balance]
  tracked_tcp [OF tcp_table.create_balance] tracked_tcp [OF tcp_table.delete_balance]

lemma manager_handle_tracked: "manager_handle env s io msg = (s', effs) \<Longrightarrow> tracked s effs s'"
  by (cases msg) (auto split: prod.splits intro: tracked_same tracked_answer tracked_impls)

interpretation manager_ledger: resource_ledger "manager_step env" manager_tasks task_started task_stopped for env
proof
  fix s e s' outs c
  assume "manager_step env s e = (s', outs, c)"
  then have "tracked s outs s'"
    by (auto simp: manager_step_def split: prod.splits intro: manager_handle_tracked)
  then show "manager_tasks s \<union> \<Union> (task_started ` set outs) \<subseteq> manager_tasks s' \<union> \<Union> (task_stopped ` set outs)"
    unfolding tracked_def .
qed

lemma manager_run_loop:
  "manager_run env s q = (s', effs) \<longleftrightarrow> run_loop (manager_step env) (\<lambda>_. []) s q = (s', effs, Continue)"
proof -
  have "snd (snd (run_loop (manager_step env) (\<lambda>_. []) s q)) = Continue"
    by (induction q arbitrary: s) (auto simp: manager_step_def split: prod.splits, metis snd_conv)
  then show ?thesis
    unfolding manager_run_def by (auto split: prod.splits)
qed

text \<open>
  The manager keeps track of every endpoint task: after any sequence of messages, each UDP or
  TCP endpoint task it has started is registered under its endpoint or has been aborted.
\<close>

lemma manager_no_endpoint_leak:
  assumes "manager_run env manager_new q = (s, effs)"
  shows "\<Union> (task_started ` set effs) \<subseteq> manager_tasks s \<union> \<Union> (task_stopped ` set effs)"
  using manager_ledger.running_owned [OF assms [unfolded manager_run_loop]] by blast

section \<open>Requests and answers\<close>

fun responses :: "mgr_effect \<Rightarrow> (oneshot_id \<times> ProxyManagerMsg) list" where
  "responses (Respond rt m) = [(rt, m)]"
| "responses _ = []"

abbreviation answers :: "mgr_effect list \<Rightarrow> (oneshot_id \<times> ProxyManagerMsg) list" where
  "answers effs \<equiv> concat (map responses effs)"

text \<open>The channel a request asks to be answered on, and whether an answer fits a request.\<close>

fun request_of :: "ProxyManagerMsg \<Rightarrow> oneshot_id option" where
  "request_of (CreateUdpProxy rt ep) = Some rt"
| "request_of (CreateTcpProxy rt ep) = Some rt"
| "request_of (DeleteUdpProxy rt ep) = Some rt"
| "request_of (DeleteTcpProxy rt ep) = Some rt"
| "request_of _ = None"

fun answer_fits :: "ProxyManagerMsg \<Rightarrow> ProxyManagerMsg \<Rightarrow> bool" where
  "answer_fits (CreateUdpProxy rt ep) m \<longleftrightarrow> (\<exists>p. m = CreateUdpProxyRs p) \<or> (\<exists>e. m = UdpProxyErrorRs e)"
| "answer_fits (CreateTcpProxy rt ep) m \<longleftrightarrow> (\<exists>p. m = CreateTcpProxyRs p) \<or> (\<exists>e. m = TcpProxyErrorRs e)"
| "answer_fits (DeleteUdpProxy rt ep) m \<longleftrightarrow> m = DeleteUdpProxyRs \<or> (\<exists>e. m = UdpProxyErrorRs e)"
| "answer_fits (DeleteTcpProxy rt ep) m \<longleftrightarrow> m = DeleteTcpProxyRs \<or> (\<exists>e. m = TcpProxyErrorRs e)"
| "answer_fits _ m \<longleftrightarrow> False"

lemma responses_map [simp]:
  "concat (map responses (map OfUdp xs)) = []" "concat (map responses (map OfTcp ys)) = []"
  by (induction xs; simp) (induction ys; simp)

lemma manager_answers:
  "case request_of msg of
     None \<Rightarrow> answers (snd (manager_handle env s io msg)) = []
   | Some rt \<Rightarrow> \<exists>m. answers (snd (manager_handle env s io msg)) = [(rt, m)] \<and> answer_fits msg m"
  by (cases msg) (auto simp del: map_map split: prod.splits sum.splits)

lemma manager_run_Cons:
  "manager_run env s ((msg, io) # q) =
     (case manager_handle env s io msg of (s1, effs1) \<Rightarrow>
        (case manager_run env s1 q of (s2, effs2) \<Rightarrow> (s2, effs1 @ effs2)))"
  by (simp add: manager_run_def manager_step_def split: prod.splits)

lemma manager_run_Nil [simp]: "manager_run env s [] = (s, [])"
  by (simp add: manager_run_def)

text \<open>The messages that take a name out of one of the tables; no other message touches its entry.\<close>

fun ends_udp :: "Endpoint \<Rightarrow> ProxyManagerMsg \<Rightarrow> bool" where
  "ends_udp ep (DeleteUdpProxy rt ep') \<longleftrightarrow> ep' = ep"
| "ends_udp ep (UdpEndpointEnded ep') \<longleftrightarrow> ep' = ep"
| "ends_udp ep _ \<longleftrightarrow> False"

fun ends_tcp :: "Endpoint \<Rightarrow> ProxyManagerMsg \<Rightarrow> bool" where
  "ends_tcp ep (DeleteTcpProxy rt ep') \<longleftrightarrow> ep' = ep"
| "ends_tcp ep (TcpEndpointEnded ep') \<longleftrightarrow> ep' = ep"
| "ends_tcp ep _ \<longleftrightarrow> False"

lemma manager_keeps_udp:
  assumes "fmlookup (mt_udp_proxy s) ep = Some h" "\<not> ends_udp ep msg"
  shows "fmlookup (mt_udp_proxy (fst (manager_handle env s io msg))) ep = Some h"
  using assms udp_table.create_keeps [OF _ assms(1)]
  by (cases msg) (auto simp: delete_udp_proxy_impl_def split: prod.splits option.splits)

lemma manager_keeps_tcp:
  assumes "fmlookup (mt_tcp_proxy s) ep = Some h" "\<not> ends_tcp ep msg"
  shows "fmlookup (mt_tcp_proxy (fst (manager_handle env s io msg))) ep = Some h"
  using assms tcp_table.create_keeps [OF _ assms(1)]
  by (cases msg) (auto simp: delete_tcp_proxy_impl_def split: prod.splits option.splits)

lemma manager_run_fst:
  "fst (manager_run env s ((msg, io) # q)) = fst (manager_run env (fst (manager_handle env s io msg)) q)"
  by (simp add: manager_run_Cons split: prod.splits)

lemma manager_run_keeps_udp:
  assumes "fmlookup (mt_udp_proxy s) ep = Some h" "\<forall>m\<in>set q. \<not> ends_udp ep (fst m)"
  shows "fmlookup (mt_udp_proxy (fst (manager_run env s q))) ep = Some h"
  using assms
proof (induction q arbitrary: s)
  case (Cons x q)
  with manager_keeps_udp show ?case by (cases x) (simp add: manager_run_fst)
qed simp

lemma manager_run_keeps_tcp:
  assumes "fmlookup (mt_tcp_proxy s) ep = Some h" "\<forall>m\<in>set q. \<not> ends_tcp ep (fst m)"
  shows "fmlookup (mt_tcp_proxy (fst (manager_run env s q))) ep = Some h"
  using assms
proof (induction q arbitrary: s)
  case (Cons x q)
  with manager_keeps_tcp show ?case by (cases x) (simp add: manager_run_fst)
qed simp

text \<open>
  C22. Every request is answered exactly once, in the order of the requests, on the channel it
  named and with an answer of its own kind; other messages are not answered.  The callers'
  branches for an unexpected answer are never taken.
\<close>

theorem manager_run_answers:
  "list_all2 (\<lambda>msg (rt, m). request_of msg = Some rt \<and> answer_fits msg m)
     (filter (\<lambda>msg. request_of msg \<noteq> None) (map fst q)) (answers (snd (manager_run env s q)))"
proof (induction q arbitrary: s)
  case (Cons x q)
  obtain msg io where x: "x = (msg, io)" by (cases x)
  obtain s1 effs1 where h: "manager_handle env s io msg = (s1, effs1)" by (cases "manager_handle env s io msg")
  obtain s2 effs2 where r: "manager_run env s1 q = (s2, effs2)" by (cases "manager_run env s1 q")
  have "answers effs1 = [] \<and> request_of msg = None \<or>
      (\<exists>rt m. answers effs1 = [(rt, m)] \<and> request_of msg = Some rt \<and> answer_fits msg m)"
    using manager_answers [where msg = msg and env = env and s = s and io = io] h by (auto split: option.splits)
  with Cons.IH [of s1] r h show ?case
    by (auto simp: x manager_run_Cons simp del: concat_eq_Nil_conv Nil_eq_concat_conv)
qed simp

section \<open>Creating and deleting endpoints\<close>

abbreviation demo_env :: Env where
  "demo_env \<equiv> \<lparr>env_resolve = \<lambda>host p. Inr [V4 1 p], env_resolve_str = demo_resolve, env_debug = \<lambda>ep. ep_ip ep\<rparr>"

abbreviation demo_mio :: mgr_io where
  "demo_mio \<equiv> \<lparr>mio_bind = Bound 4000 11 12, mio_listen = Listening 5000 13 14\<rparr>"

abbreviation demo_ep :: Endpoint where
  "demo_ep \<equiv> Endpoint_new 80 ''h'' ''s''"

lemma manager_no_endpoint_leak_witness:
  "\<exists>s effs. manager_run demo_env manager_new
      [(CreateUdpProxy 1 demo_ep, demo_mio), (DeleteUdpProxy 2 demo_ep, demo_mio)] = (s, effs) \<and>
     12 \<in> \<Union> (task_started ` set effs) \<and> 12 \<in> \<Union> (task_stopped ` set effs)"
proof -
  obtain s effs where run: "manager_run demo_env manager_new
      [(CreateUdpProxy 1 demo_ep, demo_mio), (DeleteUdpProxy 2 demo_ep, demo_mio)] = (s, effs)"
    by fastforce
  then have "12 \<in> \<Union> (task_started ` set effs)" "mt_udp_proxy s = fmempty" "mt_tcp_proxy s = fmempty"
    by (auto simp: manager_run_Cons manager_new_def udp_impl_defs socket_addr_def iter_next_def
        Endpoint_new_def hash_map)
  moreover from this have "manager_tasks s = {}"
    by (simp add: manager_tasks_def udp_table.tasks_def tcp_table.tasks_def)
  ultimately show ?thesis
    using run manager_no_endpoint_leak [OF run] by blast
qed

text \<open>
  UDP endpoints: creating an endpoint again gives the same port and starts nothing, and
  deleting one that was new brings the table back to what it was and stops exactly the task that
  was started.
\<close>

lemma udp_create_delete:
  assumes "create_udp_proxy_impl env m ep io = (Inr p, m', effs)"
  shows "create_udp_proxy_impl env m' ep io' = (Inr p, m', []) \<and>
    (fmlookup m ep = None \<longrightarrow>
       (\<exists>effs'. delete_udp_proxy_impl env m' ep = (Inr (), m, effs') \<and>
          \<Union> (endpoint_aborted ` set effs') = \<Union> (endpoint_spawned ` set effs)))"
  using udp_table.create_again [OF assms] udp_table.create_delete [OF _ assms] by blast

lemma udp_create_delete_witness:
  "\<exists>m effs. create_udp_proxy_impl demo_env fmempty demo_ep (Bound 4000 11 12) = (Inr 4000, m, effs) \<and>
     create_udp_proxy_impl demo_env m demo_ep (Bound 4001 15 16) = (Inr 4000, m, []) \<and>
     (\<exists>effs'. delete_udp_proxy_impl demo_env m demo_ep = (Inr (), fmempty, effs'))"
proof -
  obtain m effs where c: "create_udp_proxy_impl demo_env fmempty demo_ep (Bound 4000 11 12) = (Inr 4000, m, effs)"
    by (simp add: udp_impl_defs socket_addr_def iter_next_def)
  have "fmlookup fmempty demo_ep = None" by simp
  with c udp_create_delete [OF c, where io' = "Bound 4001 15 16"] show ?thesis by blast
qed

text \<open>
  TCP endpoints: creating an endpoint again gives the same port and starts nothing, and
  deleting one that was new brings the table back to what it was and stops exactly the task that
  was started.
\<close>

lemma tcp_create_delete:
  assumes "create_tcp_proxy_impl m ep io = (Inr p, m', effs)"
  shows "create_tcp_proxy_impl m' ep io' = (Inr p, m', []) \<and>
    (fmlookup m ep = None \<longrightarrow>
       (\<exists>effs'. delete_tcp_proxy_impl env m' ep = (Inr (), m, effs') \<and>
          \<Union> (tcp_endpoint_aborted ` set effs') = \<Union> (tcp_endpoint_spawned ` set effs)))"
  using tcp_table.create_again [OF assms] tcp_table.create_delete [OF _ assms] by blast

lemma tcp_create_delete_witness:
  "\<exists>m effs. create_tcp_proxy_impl fmempty demo_ep (Listening 5000 13 14) = (Inr 5000, m, effs) \<and>
     create_tcp_proxy_impl m demo_ep (Listening 5001 15 16) = (Inr 5000, m, []) \<and>
     (\<exists>effs'. delete_tcp_proxy_impl demo_env m demo_ep = (Inr (), fmempty, effs'))"
proof -
  obtain m effs where c: "create_tcp_proxy_impl fmempty demo_ep (Listening 5000 13 14) = (Inr 5000, m, effs)"
    by (simp add: tcp_impl_defs socket_addr_def iter_next_def)
  have "fmlookup fmempty demo_ep = None" by simp
  with c tcp_create_delete [OF c, where io' = "Listening 5001 15 16"] show ?thesis by blast
qed

end
