(* ===== verification/Endpoint_Registry.thy ===== *)
theory Endpoint_Registry
  imports Manager_Task
begin

text \<open>
  The manager's task together with the endpoint tasks it has started: its channel, the running UDP
  and TCP endpoints and the end reports they put on the channel, interleaved in any order
  (\<^verbatim>\<open>src/proxy.rs\<close>, \<^verbatim>\<open>src/proxy/udp_client.rs\<close>, \<^verbatim>\<open>src/proxy/tcp_clients.rs\<close>).  The locale
  \<open>endpoint_registry\<close> extends the contract of a handler table by what its operations do to the running
  tasks, and gives the invariant that ties a table to them; it is interpreted for both tables.
\<close>

section \<open>A table and the tasks behind it\<close>

text \<open>
  A registered endpoint runs under the task of its handle, or its end report is under way, or its task
  has panicked; a running endpoint is registered; no two endpoints share a task.
\<close>

definition registry_ok :: "('h \<Rightarrow> task_id) \<Rightarrow> ('s \<Rightarrow> 'k) \<Rightarrow> ('k, 'h) fmap \<Rightarrow> (task_id, 's) fmap
    \<Rightarrow> 'k set \<Rightarrow> task_id set \<Rightarrow> bool" where
  "registry_ok task_of name m running reports panicked \<longleftrightarrow>
     (\<forall>k h. fmlookup m k = Some h \<longrightarrow>
        map_option name (fmlookup running (task_of h)) = Some k \<or> k \<in> reports \<or> task_of h \<in> panicked) \<and>
     (\<forall>t s. fmlookup running t = Some s \<longrightarrow> (\<exists>h. fmlookup m (name s) = Some h \<and> task_of h = t)) \<and>
     (\<forall>k h k' h'. fmlookup m k = Some h \<longrightarrow> fmlookup m k' = Some h' \<longrightarrow> task_of h = task_of h' \<longrightarrow> k = k')"

lemma registry_okD:
  assumes "registry_ok task_of name m running reports panicked"
  shows "fmlookup m k = Some h \<Longrightarrow>
      map_option name (fmlookup running (task_of h)) = Some k \<or> k \<in> reports \<or> task_of h \<in> panicked"
    and "fmlookup running t = Some s \<Longrightarrow> \<exists>h. fmlookup m (name s) = Some h \<and> task_of h = t"
    and "fmlookup m k = Some h \<Longrightarrow> fmlookup m k' = Some h' \<Longrightarrow> task_of h = task_of h' \<Longrightarrow> k = k'"
  using assms unfolding registry_ok_def by blast+

lemma registry_okI:
  assumes "\<And>k h. fmlookup m k = Some h \<Longrightarrow>
      map_option name (fmlookup running (task_of h)) = Some k \<or> k \<in> reports \<or> task_of h \<in> panicked"
    and "\<And>t s. fmlookup running t = Some s \<Longrightarrow> \<exists>h. fmlookup m (name s) = Some h \<and> task_of h = t"
    and "\<And>k h k' h'. fmlookup m k = Some h \<Longrightarrow> fmlookup m k' = Some h' \<Longrightarrow> task_of h = task_of h' \<Longrightarrow> k = k'"
  shows "registry_ok task_of name m running reports panicked"
  unfolding registry_ok_def using assms by blast

text \<open>The moves of a task: it keeps its name, it ends with a report, it panics.\<close>

lemma registry_turn:
  assumes "registry_ok task_of name m running reports panicked" "fmlookup running t = Some s" "name s' = name s"
  shows "registry_ok task_of name m (fmupd t s' running) reports panicked"
proof (rule registry_okI)
  note ok = registry_okD [OF assms(1)]
  show "map_option name (fmlookup (fmupd t s' running) (task_of h)) = Some k \<or> k \<in> reports \<or> task_of h \<in> panicked"
    if "fmlookup m k = Some h" for k h
    using ok(1) [OF that] assms(2,3) by (cases "task_of h = t") auto
  show "\<exists>h. fmlookup m (name q) = Some h \<and> task_of h = u" if "fmlookup (fmupd t s' running) u = Some q" for u q
    using that ok(2) [of u q] ok(2) [OF assms(2)] assms(3) by (cases "u = t") auto
qed (rule registry_okD(3) [OF assms(1)])

lemma registry_end:
  assumes "registry_ok task_of name m running reports panicked" "fmlookup running t = Some s"
    and "name s \<in> reports' \<or> t \<in> panicked'" "reports \<subseteq> reports'" "panicked \<subseteq> panicked'"
  shows "registry_ok task_of name m (fmdrop t running) reports' panicked'"
proof (rule registry_okI)
  note ok = registry_okD [OF assms(1)]
  show "map_option name (fmlookup (fmdrop t running) (task_of h)) = Some k \<or> k \<in> reports' \<or> task_of h \<in> panicked'"
    if "fmlookup m k = Some h" for k h
    using ok(1) [OF that] assms(2-5) by (cases "task_of h = t") auto
  show "\<exists>h. fmlookup m (name q) = Some h \<and> task_of h = u" if "fmlookup (fmdrop t running) u = Some q" for u q
    using that ok(2) [of u q] by (auto split: if_splits)
qed (rule registry_okD(3) [OF assms(1)])

locale endpoint_registry = proxy_table port_of create delete started stopped task_of
  for port_of :: "'h \<Rightarrow> u16"
    and create :: "('k, 'h) fmap \<Rightarrow> 'k \<Rightarrow> 'io \<Rightarrow> u16 result \<times> ('k, 'h) fmap \<times> 'o list"
    and delete :: "('k, 'h) fmap \<Rightarrow> 'k \<Rightarrow> unit result \<times> ('k, 'h) fmap \<times> 'o list"
    and started :: "'o \<Rightarrow> task_id set"
    and stopped :: "'o \<Rightarrow> task_id set"
    and task_of :: "'h \<Rightarrow> task_id" +
  fixes name :: "'s \<Rightarrow> 'k"
    and io_tasks :: "'io \<Rightarrow> task_id set"
    and launch :: "(task_id, 's) fmap \<Rightarrow> 'o \<Rightarrow> (task_id, 's) fmap"
  assumes create_runs: "fmlookup m k = None \<Longrightarrow> create m k io = (Inr p, m', effs) \<Longrightarrow>
      \<exists>h s. m' = fmupd k h m \<and> task_of h \<in> io_tasks io \<and> name s = k \<and>
        foldl launch running effs = fmupd (task_of h) s running"
    and delete_runs: "fmlookup m k = Some h \<Longrightarrow> delete m k = (Inr u, m', effs) \<Longrightarrow>
      foldl launch running effs = fmdrop (task_of h) running"
begin

abbreviation reg_ok :: "('k, 'h) fmap \<Rightarrow> (task_id, 's) fmap \<Rightarrow> 'k set \<Rightarrow> task_id set \<Rightarrow> bool" where
  "reg_ok \<equiv> registry_ok task_of name"

lemma create_reg_ok:
  assumes ok: "reg_ok m running reports panicked" and cr: "create m k io = (r, m', effs)"
    and fresh: "io_tasks io \<inter> (fset (fmdom running) \<union> tasks m \<union> panicked) = {}"
  shows "reg_ok m' (foldl launch running effs) reports panicked"
  using cr
proof (cases rule: create_cases)
  case (fresh h0)
  then obtain h s where m': "m' = fmupd k h m" and t: "task_of h \<in> io_tasks io" "name s = k"
    and run: "foldl launch running effs = fmupd (task_of h) s running"
    using create_runs [of m k io _ m' effs running] cr by auto
  have new: "fmlookup running (task_of h) = None" "\<And>k' h'. fmlookup m k' = Some h' \<Longrightarrow> task_of h' \<noteq> task_of h"
  proof -
    have "task_of h \<notin> fset (fmdom running)" "task_of h \<notin> tasks m"
      using assms(3) t(1) by blast+
    then show "fmlookup running (task_of h) = None" "\<And>k' h'. fmlookup m k' = Some h' \<Longrightarrow> task_of h' \<noteq> task_of h"
      unfolding tasks_def by (simp add: fmdom_notD, metis (mono_tags, lifting) mem_Collect_eq)
  qed
  show ?thesis
    unfolding m' run
  proof (rule registry_okI)
    show "map_option name (fmlookup (fmupd (task_of h) s running) (task_of h')) = Some k' \<or>
        k' \<in> reports \<or> task_of h' \<in> panicked"
      if "fmlookup (fmupd k h m) k' = Some h'" for k' h'
      using that registry_okD(1) [OF ok, of k' h'] new(2) [of k' h'] t(2) by (auto split: if_splits)
    show "\<exists>h'. fmlookup (fmupd k h m) (name q) = Some h' \<and> task_of h' = u"
      if "fmlookup (fmupd (task_of h) s running) u = Some q" for u q
      using that registry_okD(2) [OF ok, of u q] fresh(1) t(2) by (auto split: if_splits)
    show "k1 = k2" if "fmlookup (fmupd k h m) k1 = Some h1" "fmlookup (fmupd k h m) k2 = Some h2"
      "task_of h1 = task_of h2" for k1 h1 k2 h2
      using that registry_okD(3) [OF ok] new(2) by (metis fmupd_lookup option.inject)
  qed
qed (use ok in simp_all)

lemma delete_reg_ok:
  assumes ok: "reg_ok m running reports panicked" and del: "delete m k = (r, m', effs)"
    and rep: "reports \<subseteq> insert k reports'"
  shows "reg_ok m' (foldl launch running effs) reports' panicked"
proof (cases "fmlookup m k")
  case (Some h)
  then have m': "m' = fmdrop k m" and run: "foldl launch running effs = fmdrop (task_of h) running"
    using delete_known [OF Some] delete_runs [OF Some] del by auto
  show ?thesis
    unfolding m' run
  proof (rule registry_okI)
    show "map_option name (fmlookup (fmdrop (task_of h) running) (task_of h')) = Some k' \<or>
        k' \<in> reports' \<or> task_of h' \<in> panicked"
      if "fmlookup (fmdrop k m) k' = Some h'" for k' h'
      using that registry_okD(1) [OF ok, of k' h'] registry_okD(3) [OF ok Some, of k' h'] rep
      by (auto split: if_splits)
    show "\<exists>h'. fmlookup (fmdrop k m) (name q) = Some h' \<and> task_of h' = u"
      if "fmlookup (fmdrop (task_of h) running) u = Some q" for u q
      using that registry_okD(2) [OF ok, of u q] Some by (auto split: if_splits)
  qed (use registry_okD(3) [OF ok] in \<open>auto split: if_splits\<close>)
next
  case None
  then have "m' = m" "effs = []" using delete_unknown [OF None] del by auto
  moreover have "k' \<in> reports'" if "fmlookup m k' = Some h" "k' \<in> reports" for k' h
    using that None rep by auto
  ultimately show ?thesis using ok unfolding registry_ok_def by simp blast
qed

end

section \<open>The two tables\<close>

fun udp_launch :: "(task_id, ProxyEndpoint) fmap \<Rightarrow> udp_effect \<Rightarrow> (task_id, ProxyEndpoint) fmap" where
  "udp_launch running (SpawnEndpoint t s) = fmupd t s running"
| "udp_launch running (AbortEndpoint t) = fmdrop t running"
| "udp_launch running _ = running"

fun tcp_launch :: "(task_id, ProxyTcpEndpoint) fmap \<Rightarrow> tcp_effect \<Rightarrow> (task_id, ProxyTcpEndpoint) fmap" where
  "tcp_launch running (SpawnTcpEndpoint t s) = fmupd t s running"
| "tcp_launch running (AbortTcpTasks ts) = fmfilter (\<lambda>t. t |\<notin>| ts) running"
| "tcp_launch running _ = running"

fun bind_tasks :: "bind_io \<Rightarrow> task_id set" where
  "bind_tasks (Bound p sid tid) = {tid}"
| "bind_tasks _ = {}"

fun listen_tasks :: "listen_io \<Rightarrow> task_id set" where
  "listen_tasks (Listening p sid tid) = {tid}"
| "listen_tasks _ = {}"

lemma udp_create_runs:
  assumes "fmlookup m k = None" "create_udp_proxy_impl env m k io = (Inr p, m', effs)"
  shows "\<exists>h s. m' = fmupd k h m \<and> eh_handle h \<in> bind_tasks io \<and> e_endpoint s = k \<and>
    foldl udp_launch running effs = fmupd (eh_handle h) s running"
proof (cases io)
  case (Bound q sid tid)
  with assms obtain target where "m' = fmupd k \<lparr>eh_local_port = q, eh_handle = tid\<rparr> m"
    "foldl udp_launch running effs = fmupd tid (fst (ProxyEndpoint_new sid k target)) running"
    by (auto simp: udp_impl_defs split: sum.splits)
  then show ?thesis
    by (intro exI [of _ "\<lparr>eh_local_port = q, eh_handle = tid\<rparr>"] exI [of _ "fst (ProxyEndpoint_new sid k target)"])
      (simp add: Bound ProxyEndpoint_new_def)
qed (use assms in \<open>auto simp: udp_impl_defs split: sum.splits\<close>)

lemma tcp_create_runs:
  assumes "fmlookup m k = None" "create_tcp_proxy_impl m k io = (Inr p, m', effs)"
  shows "\<exists>h s. m' = fmupd k h m \<and> th_endpoint_handle h \<in> listen_tasks io \<and> te_endpoint s = k \<and>
    foldl tcp_launch running effs = fmupd (th_endpoint_handle h) s running"
proof (cases io)
  case (Listening q sid tid)
  with assms have "m' = fmupd k \<lparr>th_endpoint_handle = tid, th_local_port = q\<rparr> m"
    "foldl tcp_launch running effs = fmupd tid (fst (ProxyTcpEndpoint_new sid k)) running"
    by (auto simp: tcp_impl_defs)
  then show ?thesis
    by (intro exI [of _ "\<lparr>th_endpoint_handle = tid, th_local_port = q\<rparr>"] exI [of _ "fst (ProxyTcpEndpoint_new sid k)"])
      (simp add: Listening ProxyTcpEndpoint_new_def)
qed (use assms in \<open>auto simp: tcp_impl_defs\<close>)

interpretation udp_reg: endpoint_registry eh_local_port "create_udp_proxy_impl env" "delete_udp_proxy_impl env"
  endpoint_spawned endpoint_aborted eh_handle e_endpoint bind_tasks udp_launch for env
  by unfold_locales (rule udp_create_runs, assumption+, auto simp: udp_impl_defs)

interpretation tcp_reg: endpoint_registry th_local_port create_tcp_proxy_impl "delete_tcp_proxy_impl env"
  tcp_endpoint_spawned tcp_endpoint_aborted th_endpoint_handle te_endpoint listen_tasks tcp_launch for env
  by unfold_locales (rule tcp_create_runs, assumption+, auto simp: tcp_impl_defs fmfilter_alt_defs(1))

section \<open>The system\<close>

text \<open>
  The task's tables, the running endpoints, the messages on the channel and the endpoint tasks that
  have panicked.  What the endpoints do to their relays is the subject of other theories.
\<close>

record mgr_sys =
  ms_task :: ManagerTask
  ms_udp :: "(task_id, ProxyEndpoint) fmap"
  ms_tcp :: "(task_id, ProxyTcpEndpoint) fmap"
  ms_queue :: "ProxyManagerMsg list"
  ms_panicked :: "task_id set"

fun run_udp :: "(task_id, ProxyEndpoint) fmap \<Rightarrow> mgr_effect \<Rightarrow> (task_id, ProxyEndpoint) fmap" where
  "run_udp running (OfUdp x) = udp_launch running x"
| "run_udp running _ = running"

fun run_tcp :: "(task_id, ProxyTcpEndpoint) fmap \<Rightarrow> mgr_effect \<Rightarrow> (task_id, ProxyTcpEndpoint) fmap" where
  "run_tcp running (OfTcp x) = tcp_launch running x"
| "run_tcp running _ = running"

text \<open>The runtime gives a new task an id that no running task and no handle has.\<close>

definition fresh_io :: "mgr_sys \<Rightarrow> mgr_io \<Rightarrow> bool" where
  "fresh_io y io \<longleftrightarrow>
     bind_tasks (mio_bind io) \<inter> (fset (fmdom (ms_udp y)) \<union> udp_table.tasks (mt_udp_proxy (ms_task y))) = {} \<and>
     listen_tasks (mio_listen io) \<inter>
       (fset (fmdom (ms_tcp y)) \<union> tcp_table.tasks (mt_tcp_proxy (ms_task y)) \<union> ms_panicked y) = {}"

inductive mgr_sys_step :: "Env \<Rightarrow> mgr_sys \<Rightarrow> mgr_sys \<Rightarrow> bool" for env where
  mgr_requests: "request_of msg \<noteq> None \<Longrightarrow> mgr_sys_step env y (y\<lparr>ms_queue := ms_queue y @ [msg]\<rparr>)"
| mgr_handles: "ms_queue y = msg # q \<Longrightarrow> fresh_io y io \<Longrightarrow> manager_handle env (ms_task y) io msg = (task', effs) \<Longrightarrow>
     mgr_sys_step env y (y\<lparr>ms_task := task', ms_udp := foldl run_udp (ms_udp y) effs,
       ms_tcp := foldl run_tcp (ms_tcp y) effs, ms_queue := q\<rparr>)"
| udp_turns: "fmlookup (ms_udp y) t = Some s \<Longrightarrow> ProxyEndpoint_step tx s e = (s', outs, Continue) \<Longrightarrow>
     mgr_sys_step env y (y\<lparr>ms_udp := fmupd t s' (ms_udp y)\<rparr>)"
| udp_ends: "fmlookup (ms_udp y) t = Some s \<Longrightarrow> ProxyEndpoint_step tx s e = (s', outs, Break) \<Longrightarrow>
     ToManager msg \<in> set (ProxyEndpoint_finish s') \<Longrightarrow>
     mgr_sys_step env y (y\<lparr>ms_udp := fmdrop t (ms_udp y), ms_queue := ms_queue y @ [msg]\<rparr>)"
| tcp_turns: "fmlookup (ms_tcp y) t = Some s \<Longrightarrow>
     ProxyTcpEndpoint_turn (env_resolve_str env) tx s e = Ret (s', outs, Continue) \<Longrightarrow>
     mgr_sys_step env y (y\<lparr>ms_tcp := fmupd t s' (ms_tcp y)\<rparr>)"
| tcp_ends: "fmlookup (ms_tcp y) t = Some s \<Longrightarrow>
     ProxyTcpEndpoint_turn (env_resolve_str env) tx s e = Ret (s', outs, Break) \<Longrightarrow>
     TcpToManager msg \<in> set (ProxyTcpEndpoint_finish (Ret s')) \<Longrightarrow>
     mgr_sys_step env y (y\<lparr>ms_tcp := fmdrop t (ms_tcp y), ms_queue := ms_queue y @ [msg]\<rparr>)"
| tcp_panics: "fmlookup (ms_tcp y) t = Some s \<Longrightarrow> ProxyTcpEndpoint_turn (env_resolve_str env) tx s e = Panic \<Longrightarrow>
     mgr_sys_step env y (y\<lparr>ms_tcp := fmdrop t (ms_tcp y), ms_panicked := insert t (ms_panicked y)\<rparr>)"

definition mgr_sys_new :: mgr_sys where
  "mgr_sys_new = \<lparr>ms_task = manager_new, ms_udp = fmempty, ms_tcp = fmempty, ms_queue = [], ms_panicked = {}\<rparr>"

inductive mgr_sys_reachable :: "Env \<Rightarrow> mgr_sys \<Rightarrow> bool" for env where
  mgr_sys_init: "mgr_sys_reachable env mgr_sys_new"
| mgr_sys_next: "mgr_sys_reachable env y \<Longrightarrow> mgr_sys_step env y y' \<Longrightarrow> mgr_sys_reachable env y'"

section \<open>The invariant\<close>

definition udp_reports :: "ProxyManagerMsg list \<Rightarrow> Endpoint set" where
  "udp_reports q = {ep. UdpEndpointEnded ep \<in> set q}"

definition tcp_reports :: "ProxyManagerMsg list \<Rightarrow> Endpoint set" where
  "tcp_reports q = {ep. TcpEndpointEnded ep \<in> set q}"

abbreviation udp_tracked :: "mgr_sys \<Rightarrow> bool" where
  "udp_tracked y \<equiv> registry_ok eh_handle e_endpoint (mt_udp_proxy (ms_task y)) (ms_udp y) (udp_reports (ms_queue y)) {}"

abbreviation tcp_tracked :: "mgr_sys \<Rightarrow> bool" where
  "tcp_tracked y \<equiv> registry_ok th_endpoint_handle te_endpoint (mt_tcp_proxy (ms_task y)) (ms_tcp y)
     (tcp_reports (ms_queue y)) (ms_panicked y)"

lemma run_maps [simp]:
  "foldl run_udp r (map OfUdp es) = foldl udp_launch r es" "foldl run_udp r (map OfTcp fs) = r"
  "foldl run_tcp q (map OfTcp fs) = foldl tcp_launch q fs" "foldl run_tcp q (map OfUdp es) = q"
  by (induction es arbitrary: r; simp) (induction fs arbitrary: r; simp; fail | induction fs arbitrary: q; simp; fail | induction es arbitrary: q; simp)+

lemma reports_simps [simp]:
  "udp_reports (q @ q') = udp_reports q \<union> udp_reports q'" "tcp_reports (q @ q') = tcp_reports q \<union> tcp_reports q'"
  "udp_reports [] = {}" "tcp_reports [] = {}"
  by (auto simp: udp_reports_def tcp_reports_def)

text \<open>A message handled by the manager's task, seen from either table.\<close>

lemma udp_handle_tracked:
  assumes ok: "udp_tracked y" and q: "ms_queue y = msg # q" and fresh: "fresh_io y io"
    and h: "manager_handle env (ms_task y) io msg = (task', effs)"
  shows "registry_ok eh_handle e_endpoint (mt_udp_proxy task') (foldl run_udp (ms_udp y) effs) (udp_reports q) {}"
proof -
  have rest: "udp_reports (ms_queue y) = udp_reports [msg] \<union> udp_reports q"
    unfolding q by (simp add: udp_reports_def) blast
  have keep: "udp_reports [msg] = {} \<Longrightarrow> udp_reports (ms_queue y) = udp_reports q" by (simp add: rest)
  have create: "registry_ok eh_handle e_endpoint m (foldl udp_launch (ms_udp y) es) (udp_reports q) {}"
    if "create_udp_proxy_impl env (mt_udp_proxy (ms_task y)) ep (mio_bind io) = (r, m, es)" "udp_reports [msg] = {}" for ep r m es
    using udp_reg.create_reg_ok [OF ok that(1)] fresh keep [OF that(2)] by (simp add: fresh_io_def)
  have delete: "registry_ok eh_handle e_endpoint m (foldl udp_launch (ms_udp y) es) (udp_reports q) {}"
    if "delete_udp_proxy_impl env (mt_udp_proxy (ms_task y)) ep = (r, m, es)" "udp_reports [msg] \<subseteq> {ep}" for ep r m es
    using that(2) rest by (intro udp_reg.delete_reg_ok [OF ok that(1)]) blast
  show ?thesis
    using h create delete ok keep by (cases msg) (auto simp: udp_reports_def split: prod.splits)
qed

lemma tcp_handle_tracked:
  assumes ok: "tcp_tracked y" and q: "ms_queue y = msg # q" and fresh: "fresh_io y io"
    and h: "manager_handle env (ms_task y) io msg = (task', effs)"
  shows "registry_ok th_endpoint_handle te_endpoint (mt_tcp_proxy task') (foldl run_tcp (ms_tcp y) effs)
    (tcp_reports q) (ms_panicked y)"
proof -
  have rest: "tcp_reports (ms_queue y) = tcp_reports [msg] \<union> tcp_reports q"
    unfolding q by (simp add: tcp_reports_def) blast
  have keep: "tcp_reports [msg] = {} \<Longrightarrow> tcp_reports (ms_queue y) = tcp_reports q" by (simp add: rest)
  have create: "registry_ok th_endpoint_handle te_endpoint m (foldl tcp_launch (ms_tcp y) es) (tcp_reports q) (ms_panicked y)"
    if "create_tcp_proxy_impl (mt_tcp_proxy (ms_task y)) ep (mio_listen io) = (r, m, es)" "tcp_reports [msg] = {}" for ep r m es
    using tcp_reg.create_reg_ok [OF ok that(1)] fresh keep [OF that(2)] by (simp add: fresh_io_def)
  have delete: "registry_ok th_endpoint_handle te_endpoint m (foldl tcp_launch (ms_tcp y) es) (tcp_reports q) (ms_panicked y)"
    if "delete_tcp_proxy_impl env (mt_tcp_proxy (ms_task y)) ep = (r, m, es)" "tcp_reports [msg] \<subseteq> {ep}" for ep r m es
    using that(2) rest by (intro tcp_reg.delete_reg_ok [OF ok that(1)]) blast
  show ?thesis
    using h create delete ok keep by (cases msg) (auto simp: tcp_reports_def split: prod.splits)
qed

lemma mgr_sys_step_tracked:
  assumes "mgr_sys_step env y y'" "udp_tracked y" "tcp_tracked y"
  shows "udp_tracked y' \<and> tcp_tracked y'"
  using assms(1)
proof cases
  case (mgr_requests msg)
  then have "udp_reports [msg] = {}" "tcp_reports [msg] = {}"
    by (cases msg; simp add: udp_reports_def tcp_reports_def)+
  with mgr_requests assms(2,3) show ?thesis by simp
next
  case (mgr_handles msg q io task' effs)
  with udp_handle_tracked [OF assms(2)] tcp_handle_tracked [OF assms(3)] show ?thesis by simp
next
  case (udp_turns t s tx e s' outs)
  have "e_endpoint s' = e_endpoint s" using endpoint_step_quiet [OF udp_turns(3)] by blast
  with registry_turn [OF assms(2) udp_turns(2)] assms(3) udp_turns(1) show ?thesis by simp
next
  case (udp_ends t s tx e s' outs msg)
  have msg: "msg = UdpEndpointEnded (e_endpoint s)"
    using udp_ends(4) endpoint_step_quiet [OF udp_ends(3)]
    by (auto simp: ProxyEndpoint_finish_def ProxyEndpoint_drop_def)
  have "registry_ok eh_handle e_endpoint (mt_udp_proxy (ms_task y)) (fmdrop t (ms_udp y))
      (udp_reports (ms_queue y @ [msg])) {}"
    by (rule registry_end [OF assms(2) udp_ends(2)]) (auto simp: msg udp_reports_def)
  moreover have "tcp_reports [msg] = {}" by (simp add: msg tcp_reports_def)
  ultimately show ?thesis using assms(3) udp_ends(1) by simp
next
  case (tcp_turns t s tx e s' outs)
  with registry_turn [OF assms(3) tcp_turns(2)] tcp_turn_named [OF tcp_turns(3)] assms(2) show ?thesis by simp
next
  case (tcp_ends t s tx e s' outs msg)
  have msg: "msg = TcpEndpointEnded (te_endpoint s)"
    using tcp_ends(4) tcp_turn_named [OF tcp_ends(3)] by (simp add: ProxyTcpEndpoint_finish_def)
  have "registry_ok th_endpoint_handle te_endpoint (mt_tcp_proxy (ms_task y)) (fmdrop t (ms_tcp y))
      (tcp_reports (ms_queue y @ [msg])) (ms_panicked y)"
    by (rule registry_end [OF assms(3) tcp_ends(2)]) (auto simp: msg tcp_reports_def)
  moreover have "udp_reports [msg] = {}" by (simp add: msg udp_reports_def)
  ultimately show ?thesis using assms(2) tcp_ends(1) by simp
next
  case (tcp_panics t s tx e)
  have "registry_ok th_endpoint_handle te_endpoint (mt_tcp_proxy (ms_task y)) (fmdrop t (ms_tcp y))
      (tcp_reports (ms_queue y)) (insert t (ms_panicked y))"
    by (rule registry_end [OF assms(3) tcp_panics(2)]) auto
  with assms(2) tcp_panics(1) show ?thesis by simp
qed

lemma mgr_sys_reachable_tracked: "mgr_sys_reachable env y \<Longrightarrow> udp_tracked y \<and> tcp_tracked y"
proof (induction rule: mgr_sys_reachable.induct)
  case mgr_sys_init
  show ?case by (simp add: mgr_sys_new_def manager_new_def registry_ok_def)
next
  case (mgr_sys_next y y')
  then show ?case using mgr_sys_step_tracked by blast
qed

section \<open>What the manager knows of its endpoints\<close>

text \<open>
  C23. The manager's task and its endpoints, under any interleaving of requests, endpoints and reports:
  every running endpoint is registered under its own name, so that a deletion reaches it, and no
  two run for the same name; a registered UDP endpoint runs, or its end report is on the channel;
  the same holds of a TCP endpoint, unless its task has panicked.
\<close>

theorem running_endpoints_registered:
  assumes "mgr_sys_reachable env y"
  shows "(\<forall>t s. fmlookup (ms_udp y) t = Some s \<longrightarrow>
      (\<exists>h. fmlookup (mt_udp_proxy (ms_task y)) (e_endpoint s) = Some h \<and> eh_handle h = t)) \<and>
    (\<forall>t s. fmlookup (ms_tcp y) t = Some s \<longrightarrow>
      (\<exists>h. fmlookup (mt_tcp_proxy (ms_task y)) (te_endpoint s) = Some h \<and> th_endpoint_handle h = t)) \<and>
    (\<forall>ep h. fmlookup (mt_udp_proxy (ms_task y)) ep = Some h \<longrightarrow> UdpEndpointEnded ep \<notin> set (ms_queue y) \<longrightarrow>
      (\<exists>s. fmlookup (ms_udp y) (eh_handle h) = Some s \<and> e_endpoint s = ep)) \<and>
    (\<forall>ep h. fmlookup (mt_tcp_proxy (ms_task y)) ep = Some h \<longrightarrow> TcpEndpointEnded ep \<notin> set (ms_queue y) \<longrightarrow>
      th_endpoint_handle h \<notin> ms_panicked y \<longrightarrow>
      (\<exists>s. fmlookup (ms_tcp y) (th_endpoint_handle h) = Some s \<and> te_endpoint s = ep))"
proof -
  from mgr_sys_reachable_tracked [OF assms] have udp: "udp_tracked y" and tcp: "tcp_tracked y" by blast+
  show ?thesis
    using registry_okD(1,2) [OF udp] registry_okD(1,2) [OF tcp]
    by (intro conjI allI impI) (fastforce simp: udp_reports_def tcp_reports_def)+
qed

text \<open>
  C24. A TCP endpoint whose target does not resolve when a connection comes in panics, whoever connects:
  \<open>ProxyTcpClient::new\<close> unwraps the failed lookup.  Its listener is gone, no report of its end is put
  on the channel and its entry stays, so that, until someone deletes that name, every later allocation
  for the same target and session is answered with the port of the dead listener and starts nothing.
\<close>

theorem dead_listener_answered:
  assumes "mgr_sys_reachable env y" and "fmlookup (ms_tcp y) t = Some s"
    and "env_resolve_str env (Endpoint_display (te_endpoint s)) = Inl e"
  shows "(\<forall>tx stream addr conn tid.
      ProxyTcpEndpoint_turn (env_resolve_str env) tx s (TcpAccept (Inr (stream, addr)) conn tid) = Panic) \<and>
    (\<exists>y' h. mgr_sys_step env y y' \<and> ms_task y' = ms_task y \<and> ms_queue y' = ms_queue y \<and>
      (\<forall>t' s'. fmlookup (ms_tcp y') t' = Some s' \<longrightarrow> t' \<noteq> t \<and> te_endpoint s' \<noteq> te_endpoint s) \<and>
      fmlookup (mt_tcp_proxy (ms_task y)) (te_endpoint s) = Some h \<and> th_endpoint_handle h = t \<and>
      (\<forall>q task effs io rt. (\<forall>m\<in>set q. \<not> ends_tcp (te_endpoint s) (fst m)) \<longrightarrow>
        manager_run env (ms_task y') q = (task, effs) \<longrightarrow>
        manager_handle env task io (CreateTcpProxy rt (te_endpoint s)) =
          (task, [Respond rt (CreateTcpProxyRs (th_local_port h))])))"
proof -
  let ?y = "y\<lparr>ms_tcp := fmdrop t (ms_tcp y), ms_panicked := insert t (ms_panicked y)\<rparr>"
  have panics: "ProxyTcpEndpoint_turn (env_resolve_str env) tx s (TcpAccept (Inr (stream, addr)) conn tid) = Panic"
    for tx stream addr conn tid
    by (simp add: ProxyTcpClient_new_def assms(3))
  from panics [of 0 0 "V4 0 0" "ConnectOk 0" 0] have st: "mgr_sys_step env y ?y" by (rule tcp_panics [OF assms(2)])
  have tcp: "tcp_tracked y" using mgr_sys_reachable_tracked [OF assms(1)] by blast
  obtain h where h: "fmlookup (mt_tcp_proxy (ms_task y)) (te_endpoint s) = Some h" "th_endpoint_handle h = t"
    using registry_okD(2) [OF tcp assms(2)] by blast
  have gone: "t' \<noteq> t \<and> te_endpoint s' \<noteq> te_endpoint s" if "fmlookup (ms_tcp ?y) t' = Some s'" for t' s'
    using that registry_okD(2) [OF tcp, of t' s'] h by (auto split: if_splits)
  have answered: "manager_handle env task io (CreateTcpProxy rt (te_endpoint s)) =
      (task, [Respond rt (CreateTcpProxyRs (th_local_port h))])"
    if "\<forall>m\<in>set q. \<not> ends_tcp (te_endpoint s) (fst m)" "manager_run env (ms_task ?y) q = (task, effs)" for q task effs io rt
    using manager_run_keeps_tcp [OF h(1) that(1), of env] that(2) by (simp add: create_tcp_proxy_impl_def)
  show ?thesis
    using panics st gone answered h
    by (intro conjI allI exI [of _ ?y] exI [of _ h]) (rule panics | assumption | simp | blast)+
qed

text \<open>
  C25. End reports name an endpoint and not its task: if an endpoint ends while a deletion and a new
  allocation for the same name are on the channel (the deletion's caller has timed out), then its
  report comes after them and ends the new endpoint, whose port the allocation was answered with.
\<close>

theorem late_end_report_ends_new_endpoint:
  assumes "mgr_sys_reachable env y" and "fmlookup (ms_udp y) t = Some s" and "ms_queue y = []"
    and "socket_addr (env_resolve env) (e_endpoint s) = Inr target" and "mio_bind io = Bound p sid tid"
  shows "\<exists>y'. mgr_sys_reachable env y' \<and> ms_task y' = ms_task y \<and>
    ms_queue y' = [DeleteUdpProxy rt1 (e_endpoint s), CreateUdpProxy rt2 (e_endpoint s), UdpEndpointEnded (e_endpoint s)] \<and>
    (\<exists>task effs. manager_run env (ms_task y') (map (\<lambda>m. (m, io)) (ms_queue y')) = (task, effs) \<and>
      Respond rt2 (CreateUdpProxyRs p) \<in> set effs \<and> OfUdp (AbortEndpoint tid) \<in> set effs \<and>
      fmlookup (mt_udp_proxy task) (e_endpoint s) = None)"
proof -
  let ?ep = "e_endpoint s"
  let ?y1 = "y\<lparr>ms_queue := [DeleteUdpProxy rt1 ?ep]\<rparr>"
  let ?y2 = "y\<lparr>ms_queue := [DeleteUdpProxy rt1 ?ep, CreateUdpProxy rt2 ?ep]\<rparr>"
  let ?y3 = "?y2\<lparr>ms_udp := fmdrop t (ms_udp y), ms_queue := ms_queue ?y2 @ [UdpEndpointEnded ?ep]\<rparr>"
  have "mgr_sys_step env y ?y1" "mgr_sys_step env ?y1 ?y2"
    using mgr_requests [of "DeleteUdpProxy rt1 ?ep" env y] mgr_requests [of "CreateUdpProxy rt2 ?ep" env ?y1] assms(3)
    by simp_all
  moreover have "mgr_sys_step env ?y2 ?y3"
    using udp_ends [of ?y2 t s 0 EpTimeout s "[Incr IDLE_IN_UDP_SOCKET]" "UdpEndpointEnded ?ep" env] assms(2)
    by (simp add: ProxyEndpoint_finish_def)
  ultimately have reach: "mgr_sys_reachable env ?y3"
    using mgr_sys_next assms(1) by blast
  obtain h where h: "fmlookup (mt_udp_proxy (ms_task y)) ?ep = Some h"
    using registry_okD(2) [OF conjunct1 [OF mgr_sys_reachable_tracked [OF assms(1)]] assms(2)] by blast
  have "\<exists>task effs. manager_run env (ms_task ?y3) (map (\<lambda>m. (m, io)) (ms_queue ?y3)) = (task, effs) \<and>
      Respond rt2 (CreateUdpProxyRs p) \<in> set effs \<and> OfUdp (AbortEndpoint tid) \<in> set effs \<and>
      fmlookup (mt_udp_proxy task) ?ep = None"
    using h assms(4,5) by (simp add: manager_run_Cons udp_impl_defs)
  with reach show ?thesis by (intro exI [of _ ?y3]) simp
qed

section \<open>Witnesses\<close>

abbreviation demo_running :: mgr_sys where
  "demo_running \<equiv> \<lparr>ms_task = \<lparr>mt_udp_proxy = fmupd demo_ep \<lparr>eh_local_port = 4000, eh_handle = 12\<rparr> fmempty,
       mt_tcp_proxy = fmupd demo_ep \<lparr>th_endpoint_handle = 14, th_local_port = 5000\<rparr> fmempty\<rparr>,
     ms_udp = fmupd 12 (fst (ProxyEndpoint_new 11 demo_ep (V4 1 80))) fmempty,
     ms_tcp = fmupd 14 (fst (ProxyTcpEndpoint_new 13 demo_ep)) fmempty, ms_queue = [], ms_panicked = {}\<rparr>"

lemma demo_running_reachable:
  "mgr_sys_reachable (demo_env\<lparr>env_resolve_str := r\<rparr>) demo_running"
proof -
  let ?env = "demo_env\<lparr>env_resolve_str := r\<rparr>"
  let ?q = "[CreateUdpProxy 1 demo_ep, CreateTcpProxy 2 demo_ep]"
  let ?y1 = "mgr_sys_new\<lparr>ms_queue := [CreateUdpProxy 1 demo_ep]\<rparr>" and ?y2 = "mgr_sys_new\<lparr>ms_queue := ?q\<rparr>"
  let ?y3 = "demo_running\<lparr>ms_task := ms_task demo_running\<lparr>mt_tcp_proxy := fmempty\<rparr>, ms_tcp := fmempty,
    ms_queue := [CreateTcpProxy 2 demo_ep]\<rparr>"
  have "mgr_sys_step ?env mgr_sys_new ?y1" "mgr_sys_step ?env ?y1 ?y2"
    using mgr_requests [of "CreateUdpProxy 1 demo_ep" ?env mgr_sys_new]
      mgr_requests [of "CreateTcpProxy 2 demo_ep" ?env ?y1] by (simp_all add: mgr_sys_new_def)
  moreover have "mgr_sys_step ?env ?y2 ?y3"
    using mgr_handles [of ?y2 "CreateUdpProxy 1 demo_ep" "[CreateTcpProxy 2 demo_ep]" demo_mio ?env]
    by (simp add: mgr_sys_new_def manager_new_def fresh_io_def udp_table.tasks_def tcp_table.tasks_def udp_impl_defs
        socket_addr_def iter_next_def Endpoint_new_def)
  moreover have "mgr_sys_step ?env ?y3 demo_running"
    using mgr_handles [of ?y3 "CreateTcpProxy 2 demo_ep" "[]" "demo_mio\<lparr>mio_bind := UdpBindErr []\<rparr>" ?env]
    by (simp add: fresh_io_def tcp_table.tasks_def tcp_impl_defs)
  ultimately show ?thesis
    using mgr_sys_init mgr_sys_next by meson
qed

theorem running_endpoints_registered_witness:
  "\<exists>h. fmlookup (mt_udp_proxy (ms_task demo_running)) demo_ep = Some h \<and> eh_handle h = 12"
  using running_endpoints_registered [OF demo_running_reachable]
  by (simp add: ProxyEndpoint_new_def)

abbreviation lost_env :: Env where
  "lost_env \<equiv> demo_env\<lparr>env_resolve_str := \<lambda>_. Inl ''unknown host''\<rparr>"

theorem dead_listener_answered_witness:
  "ProxyTcpEndpoint_turn (env_resolve_str lost_env) 0 (fst (ProxyTcpEndpoint_new 13 demo_ep))
      (TcpAccept (Inr (2, V4 9 9)) (ConnectOk 3) 4) = Panic \<and>
   (\<exists>y'. mgr_sys_step lost_env demo_running y' \<and> ms_queue y' = [] \<and>
     (\<forall>t s. fmlookup (ms_tcp y') t = Some s \<longrightarrow> te_endpoint s \<noteq> demo_ep) \<and>
     manager_handle lost_env (ms_task y') demo_mio (CreateTcpProxy 9 demo_ep) =
       (ms_task y', [Respond 9 (CreateTcpProxyRs 5000)]))"
proof -
  let ?s = "fst (ProxyTcpEndpoint_new 13 demo_ep)"
  have run: "fmlookup (ms_tcp demo_running) 14 = Some ?s" by simp
  have name: "te_endpoint ?s = demo_ep" by (simp add: ProxyTcpEndpoint_new_def)
  have lost: "env_resolve_str lost_env (Endpoint_display (te_endpoint ?s)) = Inl ''unknown host''" by simp
  note dead = dead_listener_answered [OF demo_running_reachable run lost, unfolded name]
  from conjunct2 [OF dead] obtain y' h where y': "mgr_sys_step lost_env demo_running y'"
    "ms_queue y' = ms_queue demo_running"
    "\<forall>t' s'. fmlookup (ms_tcp y') t' = Some s' \<longrightarrow> t' \<noteq> 14 \<and> te_endpoint s' \<noteq> demo_ep"
    and h: "fmlookup (mt_tcp_proxy (ms_task demo_running)) demo_ep = Some h"
    and later: "\<forall>q task effs io rt. (\<forall>m\<in>set q. \<not> ends_tcp demo_ep (fst m)) \<longrightarrow>
        manager_run lost_env (ms_task y') q = (task, effs) \<longrightarrow>
        manager_handle lost_env task io (CreateTcpProxy rt demo_ep) =
          (task, [Respond rt (CreateTcpProxyRs (th_local_port h))])" by blast
  from h have "th_local_port h = 5000" by auto
  moreover have "manager_handle lost_env (ms_task y') demo_mio (CreateTcpProxy 9 demo_ep) =
      (ms_task y', [Respond 9 (CreateTcpProxyRs (th_local_port h))])"
    using later [rule_format, of "[]" "ms_task y'" "[]" demo_mio 9] by simp
  ultimately have "\<exists>y'. mgr_sys_step lost_env demo_running y' \<and> ms_queue y' = [] \<and>
     (\<forall>t s. fmlookup (ms_tcp y') t = Some s \<longrightarrow> te_endpoint s \<noteq> demo_ep) \<and>
     manager_handle lost_env (ms_task y') demo_mio (CreateTcpProxy 9 demo_ep) =
       (ms_task y', [Respond 9 (CreateTcpProxyRs 5000)])"
    using y' by (intro exI [of _ y']) auto
  with conjunct1 [OF dead] show ?thesis by blast
qed

theorem late_end_report_ends_new_endpoint_witness:
  "\<exists>y' task effs. mgr_sys_reachable demo_env y' \<and>
     manager_run demo_env (ms_task y') (map (\<lambda>m. (m, demo_mio\<lparr>mio_bind := Bound 4001 21 22\<rparr>)) (ms_queue y')) = (task, effs) \<and>
     Respond 2 (CreateUdpProxyRs 4001) \<in> set effs \<and> fmlookup (mt_udp_proxy task) demo_ep = None"
proof -
  let ?s = "fst (ProxyEndpoint_new 11 demo_ep (V4 1 80))"
  have run: "fmlookup (ms_udp demo_running) 12 = Some ?s" by simp
  have name: "e_endpoint ?s = demo_ep" by (simp add: ProxyEndpoint_new_def)
  have reach: "mgr_sys_reachable demo_env demo_running"
    using demo_running_reachable [of demo_resolve] by simp
  have queue: "ms_queue demo_running = []" by simp
  obtain target where target: "socket_addr (env_resolve demo_env) (e_endpoint ?s) = Inr target"
    unfolding name by (simp add: socket_addr_def iter_next_def)
  have io: "mio_bind (demo_mio\<lparr>mio_bind := Bound 4001 21 22\<rparr>) = Bound 4001 21 22" by simp
  show ?thesis
    using late_end_report_ends_new_endpoint [OF reach run queue target io, of 1 2, unfolded name]
    by blast
qed

end
