(* ===== verification/Manager.thy ===== *)
theory Manager
  imports Manager_Task Udp_Pooled
begin

text \<open>
  The manager, \<^verbatim>\<open>src/proxy.rs\<close>: \<open>ProxyManager\<close> with its tables of sessions, the pool of shared
  sockets, allocation and deletion of ports in both UDP modes.  A handle to a task is modelled
  together with the state of the task behind it (\<open>pm_tx\<close>, \<open>pm_udp_pool\<close>), so that a call through
  the handle is a step of that task.  Calls may also be cut at an \<open>await\<close>.  The invariant of the
  manager is kept by every call, whether it returns or is cut.
\<close>

section \<open>Requests and state\<close>

record AllocateRequest =
  rq_target_udp_port :: string
  rq_target_tcp_port :: string
  rq_target_ssl_tcp_port :: string
  rq_target_ip :: string
  rq_session_id :: string
  rq_ufrag :: "string option"

record AllocateResponse =
  rs_proxy_udp_port :: u16
  rs_proxy_tcp_port :: u16
  rs_proxy_ssl_tcp_port :: u16

record ProxyManager =
  pm_tx :: ManagerTask
  pm_udp_endpoints :: "(Session, Endpoint) fmap"
  pm_tcp_endpoints :: "(Session, Endpoint) fmap"
  pm_udp_mode :: UdpProxyMode
  pm_udp_pool :: "(PooledUdpEndpointHandler \<times> PooledUdpEndpoint) list"
  pm_next_pooled :: usize

definition Session_of :: "u16 \<Rightarrow> string \<Rightarrow> Session" where
  "Session_of p session_id = \<lparr>s_port = p, s_session_id = session_id\<rparr>"

definition ProxyManager_new :: ProxyManager where
  "ProxyManager_new =
     \<lparr>pm_tx = manager_new, pm_udp_endpoints = fmempty, pm_tcp_endpoints = fmempty,
      pm_udp_mode = PerSession, pm_udp_pool = [], pm_next_pooled = 0\<rparr>"

section \<open>The pool\<close>

text \<open>The port of the \<open>i\<close>-th pooled socket; \<open>None\<close> when it exceeds the port range.\<close>

definition pool_port :: "u16 \<Rightarrow> usize \<Rightarrow> u16 option" where
  "pool_port base_port i =
     (if base_port = 0 then Some 0
      else Option.bind (u16_try_from i) (\<lambda>i. checked_add base_port i))"

text \<open>
  The loop of \<open>with_udp_pool\<close>: a socket that cannot be bound is skipped; a port outside the range
  ends it, and the handles bound so far are dropped with the manager.
\<close>

fun bind_pool :: "u16 \<Rightarrow> (nat \<Rightarrow> pool_io) \<Rightarrow> nat list \<Rightarrow> (PooledUdpEndpointHandler \<times> PooledUdpEndpoint) list
    \<Rightarrow> (PooledUdpEndpointHandler \<times> PooledUdpEndpoint) list result \<times> udp_effect list" where
  "bind_pool base_port ios [] pool = (Inr pool, [])"
| "bind_pool base_port ios (i # is) pool =
     (case pool_port base_port (of_nat i) of
        None \<Rightarrow>
          (Inl ''udp pool exceeds the port range'',
           concat (map (\<lambda>(h, t). PooledUdpEndpointHandler_drop h) pool))
      | Some p \<Rightarrow>
          (case PooledUdpEndpointHandler_bind p (ios i) of
             (Inr handler, effs) \<Rightarrow>
               (case bind_pool base_port ios is (pool @ [handler]) of (r, effs') \<Rightarrow> (r, effs @ effs'))
           | (Inl e, effs) \<Rightarrow>
               (case bind_pool base_port ios is pool of (r, effs') \<Rightarrow> (r, effs @ effs'))))"

definition with_udp_pool :: "usize \<Rightarrow> u16 \<Rightarrow> (nat \<Rightarrow> pool_io) \<Rightarrow> ProxyManager result \<times> udp_effect list" where
  "with_udp_pool pool_size base_port ios =
     (case bind_pool base_port ios [0..<unat pool_size] [] of
        (Inl e, effs) \<Rightarrow> (Inl e, effs)
      | (Inr pool, effs) \<Rightarrow>
          (if pool_size > 0
           then (if pool = []
                 then (Inl (''Could not bind any of the '' @ dec_string (unat pool_size) @ '' pooled udp sockets''), effs)
                 else (Inr (ProxyManager_new\<lparr>pm_udp_pool := pool, pm_udp_mode := Pooled\<rparr>), effs))
           else (Inr (ProxyManager_new\<lparr>pm_udp_pool := pool\<rparr>), effs)))"

definition pooled_udp_ports :: "ProxyManager \<Rightarrow> u16 list" where
  "pooled_udp_ports pm = map (\<lambda>(h, t). ph_local_port h) (pm_udp_pool pm)"

section \<open>Calls to the manager's task\<close>

text \<open>
  A request is put on the task's channel behind the messages \<open>ahead\<close> and answered on a channel of
  its own; \<open>ci_net\<close> tells whether the task is gone before the request is taken or answered.
\<close>

record call_io =
  ci_ahead :: "(ProxyManagerMsg \<times> mgr_io) list"
  ci_net :: rpc_io
  ci_mgr :: mgr_io
  ci_rt :: oneshot_id

datatype rpc_result = SendFailed | RecvFailed | Reply ProxyManagerMsg

definition rpc :: "Env \<Rightarrow> ManagerTask \<Rightarrow> ProxyManagerMsg \<Rightarrow> call_io \<Rightarrow> rpc_result \<times> ManagerTask \<times> mgr_effect list" where
  "rpc env task msg io =
     (case ci_net io of
        SendClosed \<Rightarrow> (SendFailed, task, [])
      | RecvClosed \<Rightarrow> (RecvFailed, task, [])
      | Delivered \<Rightarrow>
          (case manager_run env task (ci_ahead io) of
             (task1, effs1) \<Rightarrow>
               (case manager_handle env task1 (ci_mgr io) msg of
                  (task2, effs2) \<Rightarrow>
                    (case map_of (answers effs2) (ci_rt io) of
                       Some m \<Rightarrow> (Reply m, task2, effs1 @ effs2)
                     | None \<Rightarrow> (RecvFailed, task2, effs1 @ effs2)))))"

section \<open>Allocation\<close>

definition create_udp_proxy_internal :: "Env \<Rightarrow> ProxyManager \<Rightarrow> Endpoint \<Rightarrow> call_io
    \<Rightarrow> u16 result \<times> ProxyManager \<times> mgr_effect list" where
  "create_udp_proxy_internal env pm ep io =
     (case rpc env (pm_tx pm) (CreateUdpProxy (ci_rt io) ep) io of
        (r, task, effs) \<Rightarrow>
          (let pm1 = pm\<lparr>pm_tx := task\<rparr> in
           case r of
             SendFailed \<Rightarrow> (Inl ''channel closed'', pm1, effs)
           | RecvFailed \<Rightarrow> (Inl ''Something happened'', pm1, effs)
           | Reply m \<Rightarrow>
               (case m of
                  CreateUdpProxyRs p \<Rightarrow>
                    (Inr p,
                     pm1\<lparr>pm_udp_endpoints := fmupd (Session_of p (ep_session_id ep)) ep (pm_udp_endpoints pm1)\<rparr>,
                     effs)
                | UdpProxyErrorRs e \<Rightarrow> (Inl e, pm1, effs)
                | _ \<Rightarrow> (Inl ''Something happened'', pm1, effs))))"

definition create_tcp_proxy_internal :: "Env \<Rightarrow> ProxyManager \<Rightarrow> string \<Rightarrow> u16 \<Rightarrow> string \<Rightarrow> call_io
    \<Rightarrow> u16 result \<times> ProxyManager \<times> mgr_effect list" where
  "create_tcp_proxy_internal env pm target_ip target_tcp_port session_id io =
     (let ep = Endpoint_new target_tcp_port target_ip session_id in
      case rpc env (pm_tx pm) (CreateTcpProxy (ci_rt io) ep) io of
        (r, task, effs) \<Rightarrow>
          (let pm1 = pm\<lparr>pm_tx := task\<rparr> in
           case r of
             SendFailed \<Rightarrow> (Inl ''Can not initiate tcp proxy creation'', pm1, effs)
           | RecvFailed \<Rightarrow> (Inl ''Tcp allocation result has not been recieved'', pm1, effs)
           | Reply m \<Rightarrow>
               (case m of
                  CreateTcpProxyRs p \<Rightarrow>
                    (Inr p,
                     pm1\<lparr>pm_tcp_endpoints := fmupd (Session_of p (ep_session_id ep)) ep (pm_tcp_endpoints pm1)\<rparr>,
                     effs)
                | TcpProxyErrorRs e \<Rightarrow> (Inl e, pm1, effs)
                | _ \<Rightarrow> (Inl ''Bad messsage'', pm1, effs))))"

text \<open>The remainder by the length of an empty pool is a panic.\<close>

definition create_pooled_udp_proxy :: "Env \<Rightarrow> ProxyManager \<Rightarrow> Endpoint \<Rightarrow> string option \<Rightarrow> call_io
    \<Rightarrow> (u16 result \<times> ProxyManager \<times> mgr_effect list) exec" where
  "create_pooled_udp_proxy env pm ep ufrag io =
     (case ufrag of
        None \<Rightarrow> Ret (Inl ''ufrag is required in pooled udp mode'', pm, [])
      | Some u \<Rightarrow>
          if u = [] then Ret (Inl ''ufrag is required in pooled udp mode'', pm, [])
          else
            (case socket_addr (env_resolve env) ep of
               Inl e \<Rightarrow> Ret (Inl e, pm, [])
             | Inr target \<Rightarrow>
                 if pm_udp_pool pm = [] then Panic
                 else
                   (let i = unat (pm_next_pooled pm) mod length (pm_udp_pool pm);
                        (pooled, task) = pm_udp_pool pm ! i;
                        pm1 = pm\<lparr>pm_next_pooled := pm_next_pooled pm + 1\<rparr>;
                        p = ph_local_port pooled
                    in case handler_add_route task (ep_session_id ep) u target (ci_rt io) (ci_net io) of
                         (r, task', effs) \<Rightarrow>
                           (let pm2 = pm1\<lparr>pm_udp_pool := (pm_udp_pool pm1)[i := (pooled, task')]\<rparr> in
                            case r of
                              Inl e \<Rightarrow> Ret (Inl e, pm2, map OfUdp effs)
                            | Inr x \<Rightarrow>
                                Ret (Inr p,
                                     pm2\<lparr>pm_udp_endpoints :=
                                       fmupd (Session_of p (ep_session_id ep)) ep (pm_udp_endpoints pm2)\<rparr>,
                                     map OfUdp effs)))))"

text \<open>The calls one allocation may make.\<close>

record alloc_call_io =
  ac_udp :: call_io
  ac_tcp :: call_io
  ac_ssl :: call_io

text \<open>One optional TCP port: parse it, and create a proxy unless it is 0.\<close>

definition create_tcp_if_wanted :: "Env \<Rightarrow> ProxyManager \<Rightarrow> AllocateRequest \<Rightarrow> string \<Rightarrow> call_io
    \<Rightarrow> u16 result \<times> ProxyManager \<times> mgr_effect list" where
  "create_tcp_if_wanted env pm request port_str io =
     (case parse_word port_str of
        Inl e \<Rightarrow> (Inl (parse_error_display e), pm, [])
      | Inr tcp_port \<Rightarrow>
          if tcp_port \<noteq> 0
          then create_tcp_proxy_internal env pm (rq_target_ip request) tcp_port (rq_session_id request) io
          else (Inr tcp_port, pm, []))"

definition create_udp_by_mode :: "Env \<Rightarrow> ProxyManager \<Rightarrow> Endpoint \<Rightarrow> string option \<Rightarrow> call_io
    \<Rightarrow> (u16 result \<times> ProxyManager \<times> mgr_effect list) exec" where
  "create_udp_by_mode env pm ep ufrag io =
     (case pm_udp_mode pm of
        PerSession \<Rightarrow> Ret (create_udp_proxy_internal env pm ep io)
      | Pooled \<Rightarrow> create_pooled_udp_proxy env pm ep ufrag io)"

definition create_proxy :: "Env \<Rightarrow> ProxyManager \<Rightarrow> AllocateRequest \<Rightarrow> alloc_call_io
    \<Rightarrow> (AllocateResponse result \<times> ProxyManager \<times> mgr_effect list) exec" where
  "create_proxy env pm request io =
     (case parse_word (rq_target_udp_port request) of
        Inl e \<Rightarrow> Panic
      | Inr target_udp_port \<Rightarrow>
          exec_bind
            (create_udp_by_mode env pm
               (Endpoint_new target_udp_port (rq_target_ip request) (rq_session_id request))
               (rq_ufrag request) (ac_udp io))
            (\<lambda>(r1, pm1, effs1).
               case r1 of
                 Inl e \<Rightarrow> Ret (Inl e, pm1, effs1)
               | Inr udp_port \<Rightarrow>
                   (case create_tcp_if_wanted env pm1 request (rq_target_tcp_port request) (ac_tcp io) of
                      (Inl e, pm2, effs2) \<Rightarrow> Ret (Inl e, pm2, effs1 @ effs2)
                    | (Inr tcp_port, pm2, effs2) \<Rightarrow>
                        (case create_tcp_if_wanted env pm2 request (rq_target_ssl_tcp_port request) (ac_ssl io) of
                           (Inl e, pm3, effs3) \<Rightarrow> Ret (Inl e, pm3, effs1 @ effs2 @ effs3)
                         | (Inr ssl_tcp_port, pm3, effs3) \<Rightarrow>
                             Ret (Inr \<lparr>rs_proxy_udp_port = udp_port, rs_proxy_tcp_port = tcp_port,
                                       rs_proxy_ssl_tcp_port = ssl_tcp_port\<rparr>,
                                  pm3, effs1 @ effs2 @ effs3)))))"

section \<open>Deletion\<close>

text \<open>The pooled socket with a port: the first one in the pool.\<close>

fun find_pooled :: "u16 \<Rightarrow> (PooledUdpEndpointHandler \<times> PooledUdpEndpoint) list \<Rightarrow> nat option" where
  "find_pooled p [] = None"
| "find_pooled p (h # pool) =
     (if ph_local_port (fst h) = p then Some 0 else map_option Suc (find_pooled p pool))"

definition delete_pooled_udp_proxy :: "ProxyManager \<Rightarrow> u16 \<Rightarrow> string \<Rightarrow> call_io
    \<Rightarrow> unit result \<times> ProxyManager \<times> mgr_effect list" where
  "delete_pooled_udp_proxy pm p session_id io =
     (case fmlookup (pm_udp_endpoints pm) (Session_of p session_id) of
        None \<Rightarrow> (Inl ''No such endpoint'', pm, [])
      | Some removed \<Rightarrow>
          (let pm1 = pm\<lparr>pm_udp_endpoints := fmdrop (Session_of p session_id) (pm_udp_endpoints pm)\<rparr> in
           case find_pooled p (pm_udp_pool pm1) of
             None \<Rightarrow> (Inl ''No such pooled port'', pm1, [])
           | Some i \<Rightarrow>
               (let (pooled, task) = pm_udp_pool pm1 ! i in
                case handler_remove_session task session_id (ci_rt io) (ci_net io) of
                  (r, task', effs) \<Rightarrow>
                    (case r of Inr found \<Rightarrow> Inr () | Inl e \<Rightarrow> Inl e,
                     pm1\<lparr>pm_udp_pool := (pm_udp_pool pm1)[i := (pooled, task')]\<rparr>,
                     map OfUdp effs))))"

text \<open>
  Outside pooled mode the answer of the task is awaited and then discarded, for UDP and for TCP:
  the deletion is reported as done.
\<close>

definition delete_udp_proxy :: "Env \<Rightarrow> ProxyManager \<Rightarrow> u16 \<Rightarrow> string \<Rightarrow> call_io
    \<Rightarrow> unit result \<times> ProxyManager \<times> mgr_effect list" where
  "delete_udp_proxy env pm p session_id io =
     (if pm_udp_mode pm = Pooled then delete_pooled_udp_proxy pm p session_id io
      else
        (case fmlookup (pm_udp_endpoints pm) (Session_of p session_id) of
           None \<Rightarrow> (Inl ''No such endpoint'', pm, [])
         | Some ep \<Rightarrow>
             (case rpc env (pm_tx pm) (DeleteUdpProxy (ci_rt io) ep) io of
                (r, task, effs) \<Rightarrow>
                  (if r = SendFailed then Inl ''channel closed'' else Inr (), pm\<lparr>pm_tx := task\<rparr>, effs))))"

definition delete_tcp_proxy :: "Env \<Rightarrow> ProxyManager \<Rightarrow> u16 \<Rightarrow> string \<Rightarrow> call_io
    \<Rightarrow> unit result \<times> ProxyManager \<times> mgr_effect list" where
  "delete_tcp_proxy env pm p session_id io =
     (case fmlookup (pm_tcp_endpoints pm) (Session_of p session_id) of
        None \<Rightarrow> (Inl ''No such endpoint'', pm, [])
      | Some ep \<Rightarrow>
          (case rpc env (pm_tx pm) (DeleteTcpProxy (ci_rt io) ep) io of
             (r, task, effs) \<Rightarrow>
               (if r = SendFailed then Inl ''channel closed'' else Inr (), pm\<lparr>pm_tx := task\<rparr>, effs)))"

section \<open>Calls that are cut\<close>

text \<open>
  The HTTP server drops a request that takes too long, at whatever \<open>await\<close> its handler has reached;
  nothing behind that point is executed.  A call to the manager waits twice: for room on the channel
  of a task and for the answer.  \<open>sent\<close> tells in which of the two it was cut; in the second case
  the task still handles the message.  (It may do so later; since the channel keeps the order and
  the next call to the same task queues behind it, the outcome is that of handling it now.)
\<close>

definition rpc_cut :: "Env \<Rightarrow> ProxyManager \<Rightarrow> ProxyManagerMsg \<Rightarrow> call_io \<Rightarrow> bool \<Rightarrow> ProxyManager \<times> mgr_effect list" where
  "rpc_cut env pm msg io sent =
     (if sent then
        (case manager_run env (pm_tx pm) (ci_ahead io) of
           (task1, effs1) \<Rightarrow>
             (case manager_handle env task1 (ci_mgr io) msg of
                (task2, effs2) \<Rightarrow> (pm\<lparr>pm_tx := task2\<rparr>, effs1 @ effs2)))
      else (pm, []))"

text \<open>The call to a pooled socket, cut; \<open>i\<close> is its position in the pool.\<close>

definition control_cut :: "ProxyManager \<Rightarrow> nat \<Rightarrow> PooledUdpMsg \<Rightarrow> bool \<Rightarrow> ProxyManager \<times> mgr_effect list" where
  "control_cut pm i msg sent =
     (if sent then
        (case pm_udp_pool pm ! i of
           (pooled, task) \<Rightarrow>
             (case on_control task msg of
                (task', effs) \<Rightarrow> (pm\<lparr>pm_udp_pool := (pm_udp_pool pm)[i := (pooled, task')]\<rparr>, map OfUdp effs)))
      else (pm, []))"

text \<open>
  An allocation is cut while it waits for its UDP port or for one of the TCP ports; \<open>None\<close> if it
  returns or panics before it comes to that point.
\<close>

datatype await_point = AtUdp | AtTcp | AtSsl

definition create_udp_cut :: "Env \<Rightarrow> ProxyManager \<Rightarrow> Endpoint \<Rightarrow> string option \<Rightarrow> call_io \<Rightarrow> bool
    \<Rightarrow> (ProxyManager \<times> mgr_effect list) option" where
  "create_udp_cut env pm ep ufrag io sent =
     (case pm_udp_mode pm of
        PerSession \<Rightarrow> Some (rpc_cut env pm (CreateUdpProxy (ci_rt io) ep) io sent)
      | Pooled \<Rightarrow>
          (case (ufrag, socket_addr (env_resolve env) ep) of
             (Some u, Inr target) \<Rightarrow>
               if u = [] \<or> pm_udp_pool pm = [] then None
               else Some (control_cut (pm\<lparr>pm_next_pooled := pm_next_pooled pm + 1\<rparr>)
                      (unat (pm_next_pooled pm) mod length (pm_udp_pool pm))
                      (AddRoute (ep_session_id ep) u target (ci_rt io)) sent)
           | _ \<Rightarrow> None))"

definition create_tcp_cut :: "Env \<Rightarrow> ProxyManager \<Rightarrow> AllocateRequest \<Rightarrow> string \<Rightarrow> call_io \<Rightarrow> bool
    \<Rightarrow> (ProxyManager \<times> mgr_effect list) option" where
  "create_tcp_cut env pm request port_str io sent =
     (case parse_word port_str of
        Inl e \<Rightarrow> None
      | Inr tcp_port \<Rightarrow>
          if tcp_port \<noteq> 0
          then Some (rpc_cut env pm
                 (CreateTcpProxy (ci_rt io) (Endpoint_new tcp_port (rq_target_ip request) (rq_session_id request)))
                 io sent)
          else None)"

definition create_proxy_cut :: "Env \<Rightarrow> ProxyManager \<Rightarrow> AllocateRequest \<Rightarrow> alloc_call_io \<Rightarrow> await_point \<Rightarrow> bool
    \<Rightarrow> (ProxyManager \<times> mgr_effect list) option" where
  "create_proxy_cut env pm request io pt sent =
     (case parse_word (rq_target_udp_port request) of
        Inl e \<Rightarrow> None
      | Inr target_udp_port \<Rightarrow>
          (let ep = Endpoint_new target_udp_port (rq_target_ip request) (rq_session_id request) in
           if pt = AtUdp then create_udp_cut env pm ep (rq_ufrag request) (ac_udp io) sent
           else
             (case create_udp_by_mode env pm ep (rq_ufrag request) (ac_udp io) of
                Ret (Inr udp_port, pm1, effs1) \<Rightarrow>
                  if pt = AtTcp
                  then map_option (apsnd ((@) effs1))
                         (create_tcp_cut env pm1 request (rq_target_tcp_port request) (ac_tcp io) sent)
                  else
                    (case create_tcp_if_wanted env pm1 request (rq_target_tcp_port request) (ac_tcp io) of
                       (Inr tcp_port, pm2, effs2) \<Rightarrow>
                         map_option (apsnd ((@) (effs1 @ effs2)))
                           (create_tcp_cut env pm2 request (rq_target_ssl_tcp_port request) (ac_ssl io) sent)
                     | _ \<Rightarrow> None)
              | _ \<Rightarrow> None)))"

text \<open>A pooled deletion takes the session off the manager's table before it waits.\<close>

definition delete_udp_proxy_cut :: "Env \<Rightarrow> ProxyManager \<Rightarrow> u16 \<Rightarrow> string \<Rightarrow> call_io \<Rightarrow> bool
    \<Rightarrow> (ProxyManager \<times> mgr_effect list) option" where
  "delete_udp_proxy_cut env pm p session_id io sent =
     (case fmlookup (pm_udp_endpoints pm) (Session_of p session_id) of
        None \<Rightarrow> None
      | Some ep \<Rightarrow>
          if pm_udp_mode pm = Pooled
          then
            (let pm1 = pm\<lparr>pm_udp_endpoints := fmdrop (Session_of p session_id) (pm_udp_endpoints pm)\<rparr> in
             map_option (\<lambda>i. control_cut pm1 i (RemoveSession session_id (ci_rt io)) sent)
               (find_pooled p (pm_udp_pool pm1)))
          else Some (rpc_cut env pm (DeleteUdpProxy (ci_rt io) ep) io sent))"

definition delete_tcp_proxy_cut :: "Env \<Rightarrow> ProxyManager \<Rightarrow> u16 \<Rightarrow> string \<Rightarrow> call_io \<Rightarrow> bool
    \<Rightarrow> (ProxyManager \<times> mgr_effect list) option" where
  "delete_tcp_proxy_cut env pm p session_id io sent =
     map_option (\<lambda>ep. rpc_cut env pm (DeleteTcpProxy (ci_rt io) ep) io sent)
       (fmlookup (pm_tcp_endpoints pm) (Session_of p session_id))"

section \<open>The invariant\<close>

text \<open>
  In pooled mode the pool is not empty, its tasks satisfy the routing invariant, and a session in
  the manager's table is known to a pooled socket with the session's port.
\<close>

definition session_live :: "(PooledUdpEndpointHandler \<times> PooledUdpEndpoint) list \<Rightarrow> Session \<Rightarrow> bool" where
  "session_live pool ses \<longleftrightarrow>
     (\<exists>h t. (h, t) \<in> set pool \<and> ph_local_port h = s_port ses \<and> s_session_id ses |\<in>| fmdom (u_sessions t))"

definition manager_wf :: "ProxyManager \<Rightarrow> bool" where
  "manager_wf pm \<longleftrightarrow>
     (pm_udp_mode pm = Pooled \<longleftrightarrow> pm_udp_pool pm \<noteq> []) \<and>
     list_all (\<lambda>(h, t). pooled_wf t) (pm_udp_pool pm) \<and>
     (pm_udp_mode pm = Pooled \<longrightarrow>
        (\<forall>ses ep. fmlookup (pm_udp_endpoints pm) ses = Some ep \<longrightarrow> session_live (pm_udp_pool pm) ses))"

text \<open>The call through a handle changes one task of the pool, and no handle.\<close>

lemma pool_update_live:
  assumes "session_live pool ses" "i < length pool" "pool ! i = (h, t)"
    and "s_port ses = ph_local_port h \<Longrightarrow> s_session_id ses |\<in>| fmdom (u_sessions t) \<Longrightarrow>
      s_session_id ses |\<in>| fmdom (u_sessions t')"
  shows "session_live (pool[i := (h, t')]) ses"
proof -
  obtain j h' u where j: "j < length pool" "pool ! j = (h', u)" "ph_local_port h' = s_port ses"
    "s_session_id ses |\<in>| fmdom (u_sessions u)"
    using assms(1) by (auto simp: session_live_def in_set_conv_nth)
  show ?thesis
  proof (cases "j = i")
    case True
    with j assms have "(h, t') \<in> set (pool[i := (h, t')])" "s_session_id ses |\<in>| fmdom (u_sessions t')"
      by (auto intro: set_update_memI)
    with True j(2,3) assms(3) show ?thesis by (auto simp: session_live_def)
  next
    case False
    with j(1,2) have "(h', u) \<in> set (pool[i := (h, t')])"
      by (metis in_set_conv_nth length_list_update nth_list_update_neq)
    with j(3,4) show ?thesis by (auto simp: session_live_def)
  qed
qed

lemma pool_update_wf:
  assumes "list_all (\<lambda>(h, t). pooled_wf t) pool" "pooled_wf t'"
  shows "list_all (\<lambda>(h, t). pooled_wf t) (pool[i := (h, t')])"
  using assms set_update_subset_insert [of pool i "(h, t')"] by (auto simp: list_all_iff)

lemma pool_update_ports:
  assumes "i < length pool" "pool ! i = (h, t)"
  shows "map (\<lambda>(h, t). ph_local_port h) (pool[i := (h, t')]) = map (\<lambda>(h, t). ph_local_port h) pool"
  using assms by (simp add: map_update list_update_same_conv)

lemma pool_task_wf: "manager_wf pm \<Longrightarrow> i < length (pm_udp_pool pm) \<Longrightarrow> pm_udp_pool pm ! i = (h, t) \<Longrightarrow> pooled_wf t"
  by (metis (mono_tags, lifting) case_prodD list_all_length manager_wf_def)

text \<open>A task of the pool may change as long as it keeps the routing invariant and forgets no session.\<close>

lemma pool_update_keeps:
  assumes wf: "manager_wf pm" and i: "i < length (pm_udp_pool pm)" "pm_udp_pool pm ! i = (h, t)"
    and "pooled_wf t'" and "fmdom (u_sessions t) |\<subseteq>| fmdom (u_sessions t')"
  shows "manager_wf (pm\<lparr>pm_next_pooled := n, pm_udp_pool := (pm_udp_pool pm)[i := (h, t')]\<rparr>)"
    and "pooled_udp_ports (pm\<lparr>pm_next_pooled := n, pm_udp_pool := (pm_udp_pool pm)[i := (h, t')]\<rparr>) = pooled_udp_ports pm"
proof -
  have "session_live ((pm_udp_pool pm)[i := (h, t')]) ses" if "session_live (pm_udp_pool pm) ses" for ses
    using pool_update_live [OF that i] assms(5) by blast
  with wf assms(4) pool_update_wf show "manager_wf (pm\<lparr>pm_next_pooled := n, pm_udp_pool := (pm_udp_pool pm)[i := (h, t')]\<rparr>)"
    by (auto simp: manager_wf_def)
qed (use pool_update_ports [OF i] in \<open>simp add: pooled_udp_ports_def\<close>)

lemma add_route_task:
  assumes "handler_add_route t sid u target rt net = (r, t', effs)" "pooled_wf t"
  shows "pooled_wf t' \<and> fmdom (u_sessions t) |\<subseteq>| fmdom (u_sessions t') \<and>
    (r = Inr () \<longrightarrow> sid |\<in>| fmdom (u_sessions t'))"
proof (cases net)
  case Delivered
  then obtain effs' where c: "on_control t (AddRoute sid u target rt) = (t', effs')" "r = Inr ()"
    using assms(1) by (auto simp: handler_add_route_def simp del: on_control.simps split: prod.splits)
  then show ?thesis
    using on_control_AddRoute(1) [OF c(1)] on_control_AddRoute_wf [OF assms(2) c(1)] by auto
qed (use assms in \<open>auto simp: handler_add_route_def\<close>)

lemma remove_session_task:
  assumes "handler_remove_session t sid rt net = (r, t', effs)" "pooled_wf t"
  shows "pooled_wf t' \<and> fmdom (u_sessions t) |-| {|sid|} |\<subseteq>| fmdom (u_sessions t') \<and>
    (net = Delivered \<longrightarrow> r = Inr (sid |\<in>| fmdom (u_sessions t)) \<and> sid |\<notin>| fmdom (u_sessions t'))"
proof (cases net)
  case Delivered
  obtain effs' where c: "on_control t (RemoveSession sid rt) = (t', effs')"
    and r: "r = Inr (RespondFound rt True \<in> set effs')"
    using assms(1) Delivered by (auto simp: handler_remove_session_def simp del: on_control.simps split: prod.splits)
  have "RespondFound rt True \<in> set effs' \<longleftrightarrow> sid |\<in>| fmdom (u_sessions t)"
    using c by (auto simp: forget_ufrag_if_unused_def drop_clients_def fmlookup_dom_iff
        split: option.splits prod.splits if_splits)
  with r show ?thesis
    using on_control_RemoveSession(1) [OF c] on_control_RemoveSession_wf [OF assms(2) c] by auto
qed (use assms in \<open>auto simp: handler_remove_session_def\<close>)

section \<open>What each call may change\<close>

lemma create_udp_proxy_internal_frame:
  "create_udp_proxy_internal env pm ep io = (r, pm', effs) \<Longrightarrow>
     pm_udp_mode pm' = pm_udp_mode pm \<and> pm_udp_pool pm' = pm_udp_pool pm \<and> pm_next_pooled pm' = pm_next_pooled pm \<and>
     pm_tcp_endpoints pm' = pm_tcp_endpoints pm \<and>
     pm_udp_endpoints pm' = (case r of Inl e \<Rightarrow> pm_udp_endpoints pm
       | Inr p \<Rightarrow> fmupd (Session_of p (ep_session_id ep)) ep (pm_udp_endpoints pm))"
  by (auto simp: create_udp_proxy_internal_def Let_def
      split: prod.splits rpc_result.splits ProxyManagerMsg.splits)

lemma create_tcp_frame:
  "create_tcp_if_wanted env pm request port_str io = (r, pm', effs) \<Longrightarrow>
     pm_udp_mode pm' = pm_udp_mode pm \<and> pm_udp_pool pm' = pm_udp_pool pm \<and> pm_next_pooled pm' = pm_next_pooled pm \<and>
     pm_udp_endpoints pm' = pm_udp_endpoints pm"
  by (auto simp: create_tcp_if_wanted_def create_tcp_proxy_internal_def Let_def
      split: prod.splits sum.splits rpc_result.splits ProxyManagerMsg.splits if_splits)

lemma create_pooled_cases:
  assumes "create_pooled_udp_proxy env pm ep ufrag io = Ret (r, pm', effs)"
  obtains
    (refused) e where "r = Inl e" "pm' = pm" "effs = []"
  | (closed) i h t t' u target effs' e where "pm_udp_pool pm \<noteq> []" "i = unat (pm_next_pooled pm) mod length (pm_udp_pool pm)"
      "pm_udp_pool pm ! i = (h, t)" "ufrag = Some u"
      "handler_add_route t (ep_session_id ep) u target (ci_rt io) (ci_net io) = (Inl e, t', effs')"
      "r = Inl e" "pm' = pm\<lparr>pm_next_pooled := pm_next_pooled pm + 1, pm_udp_pool := (pm_udp_pool pm)[i := (h, t')]\<rparr>"
  | (routed) i h t t' u target effs' where "pm_udp_pool pm \<noteq> []" "i = unat (pm_next_pooled pm) mod length (pm_udp_pool pm)"
      "pm_udp_pool pm ! i = (h, t)" "ufrag = Some u" "u \<noteq> []" "socket_addr (env_resolve env) ep = Inr target"
      "handler_add_route t (ep_session_id ep) u target (ci_rt io) (ci_net io) = (Inr (), t', effs')"
      "r = Inr (ph_local_port h)"
      "pm' = pm\<lparr>pm_next_pooled := pm_next_pooled pm + 1, pm_udp_pool := (pm_udp_pool pm)[i := (h, t')],
         pm_udp_endpoints := fmupd (Session_of (ph_local_port h) (ep_session_id ep)) ep (pm_udp_endpoints pm)\<rparr>"
proof -
  consider (none) "ufrag = None \<or> ufrag = Some []" | (unresolved) u e where "ufrag = Some u" "u \<noteq> []"
      "socket_addr (env_resolve env) ep = Inl e"
    | (target) u target where "ufrag = Some u" "u \<noteq> []" "socket_addr (env_resolve env) ep = Inr target"
    by (metis option.exhaust sumE)
  then show thesis
  proof cases
    case none
    with assms show thesis by - (rule refused, auto simp: create_pooled_udp_proxy_def)
  next
    case unresolved
    with assms show thesis by - (rule refused, auto simp: create_pooled_udp_proxy_def)
  next
    case target
    define i where "i = unat (pm_next_pooled pm) mod length (pm_udp_pool pm)"
    obtain h t where ht: "pm_udp_pool pm ! i = (h, t)" by fastforce
    obtain r0 t' effs' where add:
      "handler_add_route t (ep_session_id ep) u target (ci_rt io) (ci_net io) = (r0, t', effs')"
      by (metis prod_cases3)
    have pool: "pm_udp_pool pm \<noteq> []"
      using assms target by (auto simp: create_pooled_udp_proxy_def)
    note eq = assms [unfolded create_pooled_udp_proxy_def Let_def target option.case sum.case if_not_P [OF pool]
        if_not_P [OF target(2)], folded i_def, unfolded ht prod.case ProxyManager.simps add]
    show thesis
    proof (cases r0)
      case (Inl e)
      with eq show thesis by (intro closed [OF pool i_def ht target(1) add [unfolded Inl]]) simp_all
    next
      case (Inr x)
      then have x: "r0 = Inr ()" by simp
      with eq show thesis by (intro routed [OF pool i_def ht target add [unfolded x]]) simp_all
    qed
  qed
qed

lemma create_pooled_wf:
  assumes wf: "manager_wf pm" and "pm_udp_mode pm = Pooled"
    and "create_pooled_udp_proxy env pm ep ufrag io = Ret (r, pm', effs)"
  shows "manager_wf pm' \<and> pm_udp_mode pm' = Pooled \<and> pooled_udp_ports pm' = pooled_udp_ports pm"
  using assms(3)
proof (cases rule: create_pooled_cases)
  case refused
  then show ?thesis using assms by simp
next
  case (closed i h t t' u target effs' e)
  then have i: "i < length (pm_udp_pool pm)" by simp
  note task = add_route_task [OF closed(5) pool_task_wf [OF wf i closed(3)]]
  then show ?thesis
    using pool_update_keeps [OF wf i closed(3), of t'] assms(2) by (simp add: closed(7))
next
  case (routed i h t t' u target effs')
  then have i: "i < length (pm_udp_pool pm)" by simp
  note task = add_route_task [OF routed(7) pool_task_wf [OF wf i routed(3)]]
  have "session_live ((pm_udp_pool pm)[i := (h, t')]) ses" if "session_live (pm_udp_pool pm) ses" for ses
    using pool_update_live [OF that i routed(3)] task by blast
  moreover have "session_live ((pm_udp_pool pm)[i := (h, t')]) (Session_of (ph_local_port h) (ep_session_id ep))"
    unfolding session_live_def
    by (rule exI [of _ h], rule exI [of _ t']) (use task i in \<open>simp add: set_update_memI Session_of_def\<close>)
  ultimately show ?thesis
    using wf assms(2) routed(1,9) task pool_update_wf pool_update_ports [OF i routed(3)]
    by (auto simp: manager_wf_def pooled_udp_ports_def)
qed

lemma create_by_mode_wf:
  assumes wf: "manager_wf pm" and "create_udp_by_mode env pm ep ufrag io = Ret (r, pm', effs)"
  shows "manager_wf pm' \<and> pm_udp_mode pm' = pm_udp_mode pm \<and> pooled_udp_ports pm' = pooled_udp_ports pm"
proof (cases "pm_udp_mode pm")
  case PerSession
  then have "create_udp_proxy_internal env pm ep io = (r, pm', effs)"
    using assms(2) by (simp add: create_udp_by_mode_def)
  from create_udp_proxy_internal_frame [OF this] wf PerSession show ?thesis
    by (simp add: manager_wf_def pooled_udp_ports_def)
next
  case Pooled
  then show ?thesis
    using create_pooled_wf [OF wf Pooled] assms(2) by (simp add: create_udp_by_mode_def)
qed

lemma create_tcp_wf:
  assumes "manager_wf pm" "create_tcp_if_wanted env pm request port_str io = (r, pm', effs)"
  shows "manager_wf pm' \<and> pm_udp_mode pm' = pm_udp_mode pm \<and> pooled_udp_ports pm' = pooled_udp_ports pm"
  using create_tcp_frame [OF assms(2)] assms(1) by (simp add: manager_wf_def pooled_udp_ports_def)

text \<open>How an allocation proceeds: the UDP port first, then the two TCP ports.\<close>

lemma create_proxy_cases:
  assumes "create_proxy env pm request io = Ret (r, pm', effs)"
  obtains (udp) port ep r1 effs1 where "parse_word (rq_target_udp_port request) = Inr port"
      "ep = Endpoint_new port (rq_target_ip request) (rq_session_id request)"
      "create_udp_by_mode env pm ep (rq_ufrag request) (ac_udp io) = Ret (Inl r1, pm', effs1)" "r = Inl r1"
  | (tcp) port ep p1 pm1 effs1 e effs2 where "parse_word (rq_target_udp_port request) = Inr port"
      "ep = Endpoint_new port (rq_target_ip request) (rq_session_id request)"
      "create_udp_by_mode env pm ep (rq_ufrag request) (ac_udp io) = Ret (Inr p1, pm1, effs1)"
      "create_tcp_if_wanted env pm1 request (rq_target_tcp_port request) (ac_tcp io) = (Inl e, pm', effs2)"
      "r = Inl e"
  | (ssl) port ep p1 pm1 effs1 p2 pm2 effs2 r3 effs3 where "parse_word (rq_target_udp_port request) = Inr port"
      "ep = Endpoint_new port (rq_target_ip request) (rq_session_id request)"
      "create_udp_by_mode env pm ep (rq_ufrag request) (ac_udp io) = Ret (Inr p1, pm1, effs1)"
      "create_tcp_if_wanted env pm1 request (rq_target_tcp_port request) (ac_tcp io) = (Inr p2, pm2, effs2)"
      "create_tcp_if_wanted env pm2 request (rq_target_ssl_tcp_port request) (ac_ssl io) = (r3, pm', effs3)"
      "r = map_sum id (\<lambda>p3. \<lparr>rs_proxy_udp_port = p1, rs_proxy_tcp_port = p2, rs_proxy_ssl_tcp_port = p3\<rparr>) r3"
      "effs = effs1 @ effs2 @ effs3"
proof -
  obtain port :: u16 where port: "parse_word (rq_target_udp_port request) = Inr port"
    using assms by (auto simp: create_proxy_def split: sum.splits)
  define ep where "ep = Endpoint_new port (rq_target_ip request) (rq_session_id request)"
  obtain r1 pm1 effs1 where one: "create_udp_by_mode env pm ep (rq_ufrag request) (ac_udp io) = Ret (r1, pm1, effs1)"
    using assms port by (auto simp: create_proxy_def ep_def exec_bind_Ret_iff)
  obtain r2 pm2 effs2 where two:
    "create_tcp_if_wanted env pm1 request (rq_target_tcp_port request) (ac_tcp io) = (r2, pm2, effs2)"
    by (metis prod_cases3)
  obtain r3 pm3 effs3 where three:
    "create_tcp_if_wanted env pm2 request (rq_target_ssl_tcp_port request) (ac_ssl io) = (r3, pm3, effs3)"
    by (metis prod_cases3)
  note eq = assms [unfolded create_proxy_def port sum.case ep_def [symmetric] one exec_bind.simps prod.case two three]
  show thesis
  proof (cases r1)
    case (Inl e)
    with eq one show thesis by (intro udp [OF port ep_def]) auto
  next
    case (Inr p1)
    note one' = one [unfolded Inr]
    show thesis
    proof (cases r2)
      case (Inl e)
      with eq \<open>r1 = Inr p1\<close> two show thesis by (intro tcp [OF port ep_def one']) auto
    next
      case (Inr p2)
      with eq \<open>r1 = Inr p1\<close> two three show thesis
        by (intro ssl [OF port ep_def one' two [unfolded Inr], of r3 effs3]) (auto split: sum.splits)
    qed
  qed
qed

lemma create_proxy_wf:
  assumes wf: "manager_wf pm" and "create_proxy env pm request io = Ret (r, pm', effs)"
  shows "manager_wf pm' \<and> pm_udp_mode pm' = pm_udp_mode pm \<and> pooled_udp_ports pm' = pooled_udp_ports pm"
  using assms(2)
proof (cases rule: create_proxy_cases)
  case udp
  then show ?thesis using create_by_mode_wf [OF wf] by simp
next
  case tcp
  then show ?thesis using create_by_mode_wf [OF wf tcp(3)] create_tcp_wf by metis
next
  case ssl
  then show ?thesis using create_by_mode_wf [OF wf ssl(3)] create_tcp_wf by metis
qed

lemma find_pooled_Some:
  "find_pooled p pool = Some i \<Longrightarrow> i < length pool \<and> ph_local_port (fst (pool ! i)) = p"
  by (induction p pool arbitrary: i rule: find_pooled.induct) (auto split: if_splits)

lemma find_pooled_live: "session_live pool ses \<Longrightarrow> \<exists>i. find_pooled (s_port ses) pool = Some i"
  unfolding session_live_def by (induction pool) fastforce+

text \<open>A pooled deletion of a listed session is a call to the socket with its port.\<close>

lemma delete_pooled_cases:
  assumes wf: "manager_wf pm" and mode: "pm_udp_mode pm = Pooled"
    and del: "delete_pooled_udp_proxy pm p sid io = (r, pm', effs)"
  obtains (unlisted) "fmlookup (pm_udp_endpoints pm) (Session_of p sid) = None" "pm' = pm"
  | (listed) i h t r0 t' effs' where "i < length (pm_udp_pool pm)" "pm_udp_pool pm ! i = (h, t)" "ph_local_port h = p"
      "handler_remove_session t sid (ci_rt io) (ci_net io) = (r0, t', effs')"
      "pm' = pm\<lparr>pm_udp_endpoints := fmdrop (Session_of p sid) (pm_udp_endpoints pm),
         pm_udp_pool := (pm_udp_pool pm)[i := (h, t')]\<rparr>" "effs = map OfUdp effs'"
proof (cases "fmlookup (pm_udp_endpoints pm) (Session_of p sid)")
  case None
  with del show thesis by (intro unlisted) (simp_all add: delete_pooled_udp_proxy_def)
next
  case (Some ep)
  with wf mode have "session_live (pm_udp_pool pm) (Session_of p sid)"
    by (simp add: manager_wf_def)
  then obtain i where find: "find_pooled p (pm_udp_pool pm) = Some i"
    using find_pooled_live by (fastforce simp: Session_of_def)
  obtain h t where ht: "pm_udp_pool pm ! i = (h, t)" by fastforce
  from find_pooled_Some [OF find] ht have i: "i < length (pm_udp_pool pm)" "ph_local_port h = p"
    by auto
  obtain r0 t' effs' where rem: "handler_remove_session t sid (ci_rt io) (ci_net io) = (r0, t', effs')"
    by (metis prod_cases3)
  show thesis
    by (rule listed [OF i(1) ht i(2) rem])
       (use del Some find ht rem in \<open>simp_all add: delete_pooled_udp_proxy_def Let_def\<close>)
qed

lemma delete_pooled_wf:
  assumes wf: "manager_wf pm" and mode: "pm_udp_mode pm = Pooled"
    and del: "delete_pooled_udp_proxy pm p sid io = (r, pm', effs)"
  shows "manager_wf pm' \<and> pm_udp_mode pm' = pm_udp_mode pm \<and> pooled_udp_ports pm' = pooled_udp_ports pm"
  using assms
proof (cases rule: delete_pooled_cases)
  case unlisted
  with wf show ?thesis by simp
next
  case (listed i h t r0 t' effs')
  note task = remove_session_task [OF listed(4) pool_task_wf [OF wf listed(1,2)]]
  have "session_live ((pm_udp_pool pm)[i := (h, t')]) ses"
    if "session_live (pm_udp_pool pm) ses" "ses \<noteq> Session_of p sid" for ses
    using pool_update_live [OF that(1) listed(1,2)] that(2) task listed(3)
    by (cases ses) (fastforce simp: Session_of_def)
  then show ?thesis
    using wf mode task pool_update_wf pool_update_ports [OF listed(1,2)] listed(1)
    by (auto simp: listed(5) manager_wf_def pooled_udp_ports_def)
qed

lemma delete_udp_wf:
  assumes "manager_wf pm" "delete_udp_proxy env pm p sid io = (r, pm', effs)"
  shows "manager_wf pm' \<and> pm_udp_mode pm' = pm_udp_mode pm \<and> pooled_udp_ports pm' = pooled_udp_ports pm"
proof (cases "pm_udp_mode pm = Pooled")
  case True
  with assms delete_pooled_wf [OF assms(1) True] show ?thesis by (simp add: delete_udp_proxy_def)
next
  case False
  with assms show ?thesis
    by (auto simp: delete_udp_proxy_def manager_wf_def pooled_udp_ports_def split: option.splits prod.splits)
qed

lemma delete_tcp_wf:
  assumes "manager_wf pm" "delete_tcp_proxy env pm p sid io = (r, pm', effs)"
  shows "manager_wf pm' \<and> pm_udp_mode pm' = pm_udp_mode pm \<and> pooled_udp_ports pm' = pooled_udp_ports pm"
  using assms
  by (auto simp: delete_tcp_proxy_def manager_wf_def pooled_udp_ports_def split: option.splits prod.splits)

text \<open>Calls that are cut keep the invariant as well.\<close>

lemma rpc_cut_frame:
  "rpc_cut env pm msg io sent = (pm', effs) \<Longrightarrow> \<exists>task. pm' = pm\<lparr>pm_tx := task\<rparr>"
  by (auto simp: rpc_cut_def split: if_splits prod.splits) (metis ProxyManager.surjective ProxyManager.update_convs(1))

lemma rpc_cut_wf:
  assumes "manager_wf pm" "rpc_cut env pm msg io sent = (pm', effs)"
  shows "manager_wf pm' \<and> pooled_udp_ports pm' = pooled_udp_ports pm"
  using rpc_cut_frame [OF assms(2)] assms(1) by (auto simp: manager_wf_def pooled_udp_ports_def)

lemma create_udp_cut_wf:
  assumes wf: "manager_wf pm" and "create_udp_cut env pm ep ufrag io sent = Some (pm', effs)"
  shows "manager_wf pm' \<and> pooled_udp_ports pm' = pooled_udp_ports pm"
proof (cases "pm_udp_mode pm")
  case PerSession
  with assms(2) show ?thesis using rpc_cut_wf [OF wf] by (simp add: create_udp_cut_def)
next
  case Pooled
  define i where "i = unat (pm_next_pooled pm) mod length (pm_udp_pool pm)"
  obtain h t where ht: "pm_udp_pool pm ! i = (h, t)" by fastforce
  obtain u target where pool: "pm_udp_pool pm \<noteq> []" and
    cut: "control_cut (pm\<lparr>pm_next_pooled := pm_next_pooled pm + 1\<rparr>) i
      (AddRoute (ep_session_id ep) u target (ci_rt io)) sent = (pm', effs)"
    using assms(2) Pooled by (auto simp: create_udp_cut_def i_def split: option.splits sum.splits if_splits)
  then have i: "i < length (pm_udp_pool pm)" by (simp add: i_def)
  obtain t' effs' where add: "on_control t (AddRoute (ep_session_id ep) u target (ci_rt io)) = (t', effs')"
    by fastforce
  have "pm' = (if sent then pm\<lparr>pm_next_pooled := pm_next_pooled pm + 1, pm_udp_pool := (pm_udp_pool pm)[i := (h, t')]\<rparr>
      else pm\<lparr>pm_next_pooled := pm_next_pooled pm + 1\<rparr>)"
    using cut ht add by (auto simp: control_cut_def simp del: on_control.simps)
  moreover have "pooled_wf t'" "fmdom (u_sessions t) |\<subseteq>| fmdom (u_sessions t')"
    using on_control_AddRoute_wf [OF pool_task_wf [OF wf i ht] add] on_control_AddRoute(1) [OF add] by auto
  ultimately show ?thesis
    using pool_update_keeps [OF wf i ht] wf by (auto simp: manager_wf_def pooled_udp_ports_def)
qed

lemma create_tcp_cut_wf:
  assumes "manager_wf pm" "create_tcp_cut env pm request port_str io sent = Some (pm', effs)"
  shows "manager_wf pm' \<and> pooled_udp_ports pm' = pooled_udp_ports pm"
  using assms rpc_cut_wf by (auto simp: create_tcp_cut_def split: sum.splits if_splits)

lemma create_proxy_cut_wf:
  assumes wf: "manager_wf pm" and "create_proxy_cut env pm request io pt sent = Some (pm', effs)"
  shows "manager_wf pm' \<and> pooled_udp_ports pm' = pooled_udp_ports pm"
proof -
  obtain port :: u16 where port: "parse_word (rq_target_udp_port request) = Inr port"
    using assms(2) by (auto simp: create_proxy_cut_def split: sum.splits)
  define ep where "ep = Endpoint_new port (rq_target_ip request) (rq_session_id request)"
  note cut = assms(2) [unfolded create_proxy_cut_def port sum.case Let_def, folded ep_def]
  show ?thesis
  proof (cases "pt = AtUdp")
    case True
    with cut create_udp_cut_wf [OF wf] show ?thesis by simp
  next
    case False
    with cut obtain p1 pm1 effs1 where
      one: "create_udp_by_mode env pm ep (rq_ufrag request) (ac_udp io) = Ret (Inr p1, pm1, effs1)"
      by (auto split: exec.splits sum.splits)
    note wf1 = create_by_mode_wf [OF wf one]
    show ?thesis
    proof (cases "pt = AtTcp")
      case True
      with False cut one create_tcp_cut_wf wf1 show ?thesis by fastforce
    next
      case ssl: False
      with False cut one obtain p2 pm2 effs2 effs3 where
        "create_tcp_if_wanted env pm1 request (rq_target_tcp_port request) (ac_tcp io) = (Inr p2, pm2, effs2)"
        "create_tcp_cut env pm2 request (rq_target_ssl_tcp_port request) (ac_ssl io) sent = Some (pm', effs3)"
        by (auto split: prod.splits sum.splits)
      with create_tcp_wf create_tcp_cut_wf wf1 show ?thesis by metis
    qed
  qed
qed

text \<open>A pooled deletion that is cut changes the manager like one whose socket was gone, or like a complete one.\<close>

lemma delete_pooled_cut_eq:
  assumes "pm_udp_mode pm = Pooled" "delete_udp_proxy_cut env pm p sid io sent = Some (pm', effs)"
  shows "\<exists>r effs'. delete_pooled_udp_proxy pm p sid (io\<lparr>ci_net := if sent then Delivered else SendClosed\<rparr>) = (r, pm', effs')"
proof -
  let ?pm1 = "pm\<lparr>pm_udp_endpoints := fmdrop (Session_of p sid) (pm_udp_endpoints pm)\<rparr>"
  obtain ep i where ep: "fmlookup (pm_udp_endpoints pm) (Session_of p sid) = Some ep"
    and find: "find_pooled p (pm_udp_pool pm) = Some i"
    and cut: "control_cut ?pm1 i (RemoveSession sid (ci_rt io)) sent = (pm', effs)"
    using assms by (auto simp: delete_udp_proxy_cut_def Let_def split: option.splits)
  obtain h t where ht: "pm_udp_pool pm ! i = (h, t)" by fastforce
  obtain t' effs' where rem: "on_control t (RemoveSession sid (ci_rt io)) = (t', effs')" by fastforce
  have same: "(pm_udp_pool pm)[i := (h, t)] = pm_udp_pool pm"
    using ht by (metis list_update_id)
  show ?thesis
    using ep find ht rem cut
    by (cases sent) (auto simp: delete_pooled_udp_proxy_def control_cut_def handler_remove_session_def same
        simp del: on_control.simps)
qed

lemma delete_udp_cut_wf:
  assumes wf: "manager_wf pm" and cut: "delete_udp_proxy_cut env pm p sid io sent = Some (pm', effs)"
  shows "manager_wf pm' \<and> pooled_udp_ports pm' = pooled_udp_ports pm"
proof (cases "pm_udp_mode pm = Pooled")
  case True
  with delete_pooled_cut_eq [OF True cut] delete_pooled_wf [OF wf True] show ?thesis by blast
next
  case False
  with cut rpc_cut_wf [OF wf] show ?thesis by (auto simp: delete_udp_proxy_cut_def split: option.splits)
qed

lemma delete_tcp_cut_wf:
  assumes "manager_wf pm" "delete_tcp_proxy_cut env pm p sid io sent = Some (pm', effs)"
  shows "manager_wf pm' \<and> pooled_udp_ports pm' = pooled_udp_ports pm"
  using assms rpc_cut_wf by (auto simp: delete_tcp_proxy_cut_def)

end
