(* ===== verification/Manager_System.thy ===== *)
theory Manager_System
  imports Manager
begin

text \<open>
  The manager with its tasks as a system: how it starts (\<open>with_udp_pool\<close>), the states reachable by
  interleaving complete and cut calls with the independent steps of the tasks, and the properties
  of allocation and deletion in these states.
\<close>

section \<open>Starting the manager\<close>

lemma pool_port_eq:
  assumes "i < 2 ^ 64"
  shows "pool_port base (of_nat i) =
    (if base = 0 then Some 0 else if unat base + i < 65536 then Some (base + of_nat i) else None)"
proof -
  have i: "unat (of_nat i :: usize) = i"
    using assms by (simp add: unat_of_nat_len)
  have "i < 65536 \<Longrightarrow> unat (of_nat i :: u16) = i"
    by (simp add: unat_of_nat_len)
  then show ?thesis
    by (auto simp: pool_port_def u16_try_from_def i checked_add_def)
qed

text \<open>The handle and the task a successful bind gives.\<close>

definition bound_handle :: "pool_io \<Rightarrow> PooledUdpEndpointHandler \<times> PooledUdpEndpoint" where
  "bound_handle io =
     (\<lparr>ph_local_port = pb_port io, ph_control_tx = pb_chan io, ph_handle = pb_task io\<rparr>,
      fst (PooledUdpEndpoint_new (pb_sock io)))"

lemma bind_result:
  "fst (PooledUdpEndpointHandler_bind p io) =
     (case first_error (pb_fails io) (bind_calls p) of Some e \<Rightarrow> Inl e | None \<Rightarrow> Inr (bound_handle io))"
  by (auto simp: PooledUdpEndpointHandler_bind_def bound_handle_def split: option.splits prod.splits)

text \<open>Whether the \<open>i\<close>-th socket of the pool can be bound.\<close>

definition binds :: "u16 \<Rightarrow> (nat \<Rightarrow> pool_io) \<Rightarrow> nat \<Rightarrow> bool" where
  "binds base ios i \<longleftrightarrow>
     first_error (pb_fails (ios i)) (bind_calls (if base = 0 then 0 else base + of_nat i)) = None"

lemma bind_pool_result:
  assumes "list_all (\<lambda>i. i < 2 ^ 64) is"
  shows "fst (bind_pool base ios is pool) =
    (if base \<noteq> 0 \<and> list_ex (\<lambda>i. 65536 \<le> unat base + i) is then Inl ''udp pool exceeds the port range''
     else Inr (pool @ map (\<lambda>i. bound_handle (ios i)) (filter (binds base ios) is)))"
  using assms
proof (induction "is" arbitrary: pool)
  case (Cons i "is")
  then have i: "i < 2 ^ 64" and IH: "fst (bind_pool base ios is pool) =
    (if base \<noteq> 0 \<and> list_ex (\<lambda>i. 65536 \<le> unat base + i) is then Inl ''udp pool exceeds the port range''
     else Inr (pool @ map (\<lambda>i. bound_handle (ios i)) (filter (binds base ios) is)))" for pool
    by simp_all
  show ?case
  proof (cases "pool_port base (of_nat i)")
    case None
    with i show ?thesis by (auto simp: pool_port_eq split: if_splits)
  next
    case (Some p)
    then have p: "p = (if base = 0 then 0 else base + of_nat i)" "base \<noteq> 0 \<longrightarrow> unat base + i < 65536"
      using i by (auto simp: pool_port_eq split: if_splits)
    obtain r effs where b: "PooledUdpEndpointHandler_bind p (ios i) = (r, effs)" by fastforce
    show ?thesis
    proof (cases "binds base ios i")
      case True
      then have "r = Inr (bound_handle (ios i))"
        using bind_result [of p "ios i"] b by (simp add: binds_def p(1))
      with Some b p(2) True IH [of "pool @ [bound_handle (ios i)]"] show ?thesis
        by (auto simp: split_beta)
    next
      case False
      then obtain e where "r = Inl e"
        using bind_result [of p "ios i"] b by (auto simp: binds_def p(1))
      with Some b p(2) False IH [of pool] show ?thesis
        by (auto simp: split_beta)
    qed
  qed
qed simp

text \<open>
  What \<open>with_udp_pool\<close> gives: an error if the last port of the pool would exceed 65535, an error
  if sockets were wanted and none could be bound, and otherwise a manager whose pool has, in
  order, the sockets that could be bound, in pooled mode exactly if sockets were wanted.
\<close>

lemma with_udp_pool_eq:
  "fst (with_udp_pool pool_size base ios) =
     (let bound = filter (binds base ios) [0..<unat pool_size] in
      if base \<noteq> 0 \<and> 65536 < unat base + unat pool_size then Inl ''udp pool exceeds the port range''
      else if pool_size \<noteq> 0 \<and> bound = []
      then Inl (''Could not bind any of the '' @ dec_string (unat pool_size) @ '' pooled udp sockets'')
      else Inr (ProxyManager_new\<lparr>pm_udp_pool := map (\<lambda>i. bound_handle (ios i)) bound,
                  pm_udp_mode := (if pool_size = 0 then PerSession else Pooled)\<rparr>))"
proof -
  have size: "unat pool_size < 2 ^ 64"
    using unsigned_less [of pool_size, where ?'a = nat] by simp
  then have "list_all (\<lambda>i. i < 2 ^ 64) [0..<unat pool_size]"
    by (auto simp: list_all_iff)
  note pool = bind_pool_result [OF this, of base ios "[]"]
  have base: "unat base < 65536" by (rule u16_bound)
  have ex: "list_ex (\<lambda>i. 65536 \<le> unat base + i) [0..<unat pool_size] \<longleftrightarrow> 65536 < unat base + unat pool_size"
  proof
    assume "65536 < unat base + unat pool_size"
    with base show "list_ex (\<lambda>i. 65536 \<le> unat base + i) [0..<unat pool_size]"
      by (auto simp: list_ex_iff intro!: bexI [of _ "unat pool_size - 1"])
  qed (auto simp: list_ex_iff)
  obtain r effs where "bind_pool base ios [0..<unat pool_size] [] = (r, effs)" by fastforce
  then show ?thesis
    using pool unfolding with_udp_pool_def ex Let_def
    by (auto simp: ProxyManager_new_def word_gt_0 unat_eq_0 split: if_splits)
qed

text \<open>
  C18. A pool on fixed ports: if the kernel gives a socket the port it was bound to, then starting
  the manager fails exactly if the pool would pass port 65535, or sockets were wanted and none could
  be bound.  Otherwise the pool's ports are \<open>base + i\<close> for the sockets \<open>i\<close> that could be bound:
  distinct, without wrap-around, inside the configured range, and at least one if any was wanted.
\<close>

theorem with_udp_pool_ports:
  assumes "base \<noteq> 0" and "\<forall>i. binds base ios i \<longrightarrow> pb_port (ios i) = base + of_nat i"
  shows "((\<exists>e. fst (with_udp_pool pool_size base ios) = Inl e) \<longleftrightarrow>
      65536 < unat base + unat pool_size \<or> pool_size \<noteq> 0 \<and> (\<forall>i < unat pool_size. \<not> binds base ios i)) \<and>
    (\<forall>pm. fst (with_udp_pool pool_size base ios) = Inr pm \<longrightarrow>
        map unat (pooled_udp_ports pm) = map (\<lambda>i. unat base + i) (filter (binds base ios) [0..<unat pool_size]) \<and>
        distinct (pooled_udp_ports pm) \<and> unat base + unat pool_size \<le> 65536 \<and>
        (pooled_udp_ports pm = [] \<longleftrightarrow> pool_size = 0) \<and>
        pm_udp_mode pm = (if pool_size = 0 then PerSession else Pooled))"
proof (cases "65536 < unat base + unat pool_size")
  case False
  let ?bound = "filter (binds base ios) [0..<unat pool_size]"
  have ports: "pb_port (ios i) = base + of_nat i" "unat (base + of_nat i) = unat base + i" if "i \<in> set ?bound" for i
  proof -
    from that have "i < unat pool_size" "binds base ios i" by simp_all
    moreover from this False have "unat base + i < 65536" by simp
    ultimately show "pb_port (ios i) = base + of_nat i" "unat (base + of_nat i) = unat base + i"
      using assms(2) by (simp_all add: unat_word_ariths unat_of_nat)
  qed
  have "map (unat \<circ> (pb_port \<circ> ios)) ?bound = map (\<lambda>i. unat base + i) ?bound"
    using ports by (intro map_cong) auto
  then have nums: "map unat (map (pb_port \<circ> ios) ?bound) = map (\<lambda>i. unat base + i) ?bound"
    by simp
  moreover have "distinct (map (\<lambda>i. unat base + i) ?bound)"
    by (simp add: distinct_map inj_on_def)
  ultimately have "distinct (map (pb_port \<circ> ios) ?bound)"
    by (metis distinct_map)
  moreover have "?bound = [] \<longleftrightarrow> (\<forall>i < unat pool_size. \<not> binds base ios i)"
    by (auto simp: filter_empty_conv)
  ultimately show ?thesis
    using False nums assms(1) unfolding with_udp_pool_eq
    by (auto simp: Let_def pooled_udp_ports_def bound_handle_def comp_def)
qed (use assms(1) in \<open>simp add: with_udp_pool_eq\<close>)

section \<open>Reachable states\<close>

text \<open>
  The manager is started, then called any number of times; each call returns or is cut; between the
  calls the pooled tasks handle datagrams and relay reports, and the manager's task handles messages.
\<close>

inductive manager_reachable :: "Env \<Rightarrow> ProxyManager \<Rightarrow> bool" for env :: Env where
  mgr_start: "fst (with_udp_pool pool_size base ios) = Inr pm \<Longrightarrow> manager_reachable env pm"
| mgr_allocate: "manager_reachable env pm \<Longrightarrow> create_proxy env pm request aio = Ret (r, pm', effs) \<Longrightarrow>
    manager_reachable env pm'"
| mgr_delete_udp: "manager_reachable env pm \<Longrightarrow> delete_udp_proxy env pm p sid io = (r', pm', effs) \<Longrightarrow>
    manager_reachable env pm'"
| mgr_delete_tcp: "manager_reachable env pm \<Longrightarrow> delete_tcp_proxy env pm p sid io = (r', pm', effs) \<Longrightarrow>
    manager_reachable env pm'"
| mgr_allocate_cut: "manager_reachable env pm \<Longrightarrow> create_proxy_cut env pm request aio pt sent = Some (pm', effs) \<Longrightarrow>
    manager_reachable env pm'"
| mgr_delete_udp_cut: "manager_reachable env pm \<Longrightarrow> delete_udp_proxy_cut env pm p sid io sent = Some (pm', effs) \<Longrightarrow>
    manager_reachable env pm'"
| mgr_delete_tcp_cut: "manager_reachable env pm \<Longrightarrow> delete_tcp_proxy_cut env pm p sid io sent = Some (pm', effs) \<Longrightarrow>
    manager_reachable env pm'"
| mgr_pool_step: "manager_reachable env pm \<Longrightarrow> i < length (pm_udp_pool pm) \<Longrightarrow> pm_udp_pool pm ! i = (h, t) \<Longrightarrow>
    PooledUdpEndpoint_step tx t e = (t', outs, Continue) \<Longrightarrow> control_of e = [] \<Longrightarrow>
    manager_reachable env (pm\<lparr>pm_udp_pool := (pm_udp_pool pm)[i := (h, t')]\<rparr>)"
| mgr_task_step: "manager_reachable env pm \<Longrightarrow> manager_handle env (pm_tx pm) mio msg = (task, effs) \<Longrightarrow>
    manager_reachable env (pm\<lparr>pm_tx := task\<rparr>)"

lemma with_udp_pool_wf: "fst (with_udp_pool pool_size base ios) = Inr pm \<Longrightarrow> manager_wf pm"
proof -
  have "(h, t) = bound_handle io \<Longrightarrow> pooled_wf t" for h t io
    by (simp add: bound_handle_def pooled_wf_new)
  moreover assume "fst (with_udp_pool pool_size base ios) = Inr pm"
  ultimately show "manager_wf pm"
    unfolding with_udp_pool_eq
    by (auto simp: manager_wf_def ProxyManager_new_def list_all_iff Let_def split_beta split: if_splits)
qed

lemma pool_step_wf:
  assumes wf: "manager_wf pm" and i: "i < length (pm_udp_pool pm)" "pm_udp_pool pm ! i = (h, t)"
    and st: "PooledUdpEndpoint_step tx t e = (t', outs, ctl)" "control_of e = []"
  shows "manager_wf (pm\<lparr>pm_udp_pool := (pm_udp_pool pm)[i := (h, t')]\<rparr>)"
proof -
  have "pooled_wf t'" by (rule pooled_step_wf [OF pool_task_wf [OF wf i] st(1)])
  moreover have "u_sessions t' = u_sessions t"
    using st(1) by (cases rule: pooled_step_cases) (use st(2) in \<open>auto dest: on_datagram_table\<close>)
  ultimately show ?thesis
    using pool_update_keeps(1) [OF wf i, of t' "pm_next_pooled pm"] by simp
qed

lemma manager_reachable_wf: "manager_reachable env pm \<Longrightarrow> manager_wf pm"
proof (induction rule: manager_reachable.induct)
  case mgr_start
  then show ?case by (rule with_udp_pool_wf)
next
  case mgr_allocate
  then show ?case using create_proxy_wf by blast
next
  case mgr_delete_udp
  then show ?case using delete_udp_wf by blast
next
  case mgr_delete_tcp
  then show ?case using delete_tcp_wf by metis
next
  case mgr_allocate_cut
  then show ?case using create_proxy_cut_wf by blast
next
  case mgr_delete_udp_cut
  then show ?case using delete_udp_cut_wf by blast
next
  case mgr_delete_tcp_cut
  then show ?case using delete_tcp_cut_wf by blast
next
  case mgr_pool_step
  then show ?case using pool_step_wf by blast
next
  case (mgr_task_step pm mio msg task effs)
  then show ?case by (simp add: manager_wf_def)
qed

section \<open>Properties of the manager\<close>

lemma create_proxy_returns:
  assumes "manager_reachable env pm" "parse_word (rq_target_udp_port request) = Inr (port :: u16)"
  shows "\<exists>r pm' effs. create_proxy env pm request io = Ret (r, pm', effs)"
proof -
  let ?ep = "Endpoint_new port (rq_target_ip request) (rq_session_id request)"
  have "pm_udp_mode pm = Pooled \<Longrightarrow> pm_udp_pool pm \<noteq> []"
    using manager_reachable_wf [OF assms(1)] by (simp add: manager_wf_def)
  then have "create_udp_by_mode env pm ?ep (rq_ufrag request) (ac_udp io) \<noteq> Panic"
    by (auto simp: create_udp_by_mode_def create_pooled_udp_proxy_def Let_def
        split: UdpProxyMode.splits option.splits sum.splits prod.splits)
  then obtain r1 pm1 effs1 where "create_udp_by_mode env pm ?ep (rq_ufrag request) (ac_udp io) = Ret (r1, pm1, effs1)"
    by (metis exec.exhaust prod_cases3)
  with assms(2) show ?thesis
    by (simp add: create_proxy_def split: sum.splits prod.splits)
qed

text \<open>
  C16. No allocation can panic on the pool: in every reachable state of the manager and its tasks
  an allocation panics only if the requested UDP port is not a number of 16 bits; the remainder
  by the size of the pool and the access to the pool are always defined.
\<close>

theorem create_proxy_panics_iff:
  assumes "manager_reachable env pm"
  shows "create_proxy env pm request io = Panic \<longleftrightarrow>
    (\<exists>e. parse_word (rq_target_udp_port request) = (Inl e :: ParseIntError + u16))"
proof (cases "parse_word (rq_target_udp_port request) :: ParseIntError + u16")
  case (Inr port)
  with create_proxy_returns [OF assms Inr, of io] show ?thesis by auto
qed (simp add: create_proxy_def)

lemma reachable_session_routed:
  assumes "manager_reachable env pm" and "pm_udp_mode pm = Pooled"
    and "fmlookup (pm_udp_endpoints pm) (Session_of p sid) = Some ep"
  shows "\<exists>h t u target. (h, t) \<in> set (pm_udp_pool pm) \<and> ph_local_port h = p \<and>
    fmlookup (u_sessions t) sid = Some u \<and> fmlookup (u_routes t) u = Some target"
proof -
  note wf = manager_reachable_wf [OF assms(1)]
  then obtain h t where ht: "(h, t) \<in> set (pm_udp_pool pm)" "ph_local_port h = p" "sid |\<in>| fmdom (u_sessions t)"
    using assms(2,3) by (auto simp: manager_wf_def session_live_def Session_of_def)
  then obtain u where u: "fmlookup (u_sessions t) sid = Some u" by (auto simp: fmlookup_dom_iff)
  have "pooled_wf t" using wf ht(1) by (auto simp: manager_wf_def list_all_iff)
  then obtain target where "fmlookup (u_routes t) u = Some target"
    using pooled_table.session_routed u by blast
  with ht u show ?thesis by blast
qed

text \<open>
  C8. A session the manager lists in pooled mode is served: in every reachable state there is a
  pooled socket with the session's port that knows the session, and the session's ufrag is routed
  there.
\<close>

theorem listed_session_routed:
  assumes "manager_reachable env pm" and "pm_udp_mode pm = Pooled"
    and "fmlookup (pm_udp_endpoints pm) (Session_of p sid) = Some ep"
  shows "\<exists>h t u target. (h, t) \<in> set (pm_udp_pool pm) \<and> ph_local_port h = p \<and>
    fmlookup (u_sessions t) sid = Some u \<and> fmlookup (u_routes t) u = Some target"
  using assms by (rule reachable_session_routed)

lemma distinct_port_index:
  assumes "distinct (map (\<lambda>(h, t). ph_local_port h) pool)" "i < length pool" "pool ! i = (h, t)"
    and "(h', u) \<in> set (pool[i := (h, t')])" "ph_local_port h' = ph_local_port h"
  shows "(h', u) = (h, t')"
proof -
  obtain j where j: "j < length pool" "pool[i := (h, t')] ! j = (h', u)"
    using assms(4) by (auto simp: in_set_conv_nth)
  have "map (\<lambda>(h, t). ph_local_port h) (pool[i := (h, t')]) ! j = map (\<lambda>(h, t). ph_local_port h) pool ! i"
    using j assms(2,3,5) by simp
  then have "j = i"
    unfolding pool_update_ports [OF assms(2,3)] using assms(1,2) j(1) by (metis length_map nth_eq_iff_index_eq)
  with j(2) assms(2) show ?thesis by simp
qed

lemma find_pooled_distinct:
  assumes "distinct (map (\<lambda>(h, t). ph_local_port h) pool)" "i < length pool" "pool ! i = (h, t)"
  shows "find_pooled (ph_local_port h) pool = Some i"
  using assms
proof (induction pool arbitrary: i)
  case (Cons x pool)
  show ?case
  proof (cases i)
    case 0
    with Cons.prems show ?thesis by simp
  next
    case (Suc j)
    with Cons.prems have j: "j < length pool" "pool ! j = (h, t)" by simp_all
    then have "ph_local_port h \<in> set (map (\<lambda>(h, t). ph_local_port h) pool)"
      by (metis (mono_tags, lifting) case_prod_conv length_map nth_map nth_mem)
    then have "ph_local_port (fst x) \<noteq> ph_local_port h"
      using Cons.prems(1) by (cases x) (simp del: set_map, metis)
    with Cons.IH [OF _ j] Cons.prems(1) Suc show ?thesis by simp
  qed
qed simp

lemma add_route_delivered:
  assumes "handler_add_route t sid u target rt net = (Inr (), t', effs)"
  shows "fmlookup (u_sessions t') sid = Some u \<and> fmlookup (u_routes t') u = Some target"
proof -
  obtain effs' where "on_control t (AddRoute sid u target rt) = (t', effs')"
    using assms by (auto simp: handler_add_route_def simp del: on_control.simps split: rpc_io.splits prod.splits)
  from on_control_AddRoute(1) [OF this] on_control_AddRoute(3) [OF this, of u] show ?thesis by simp
qed

lemma create_pooled_routed:
  assumes "create_pooled_udp_proxy env pm ep ufrag io = Ret (Inr p, pm', effs)"
  shows "\<exists>h t u target. (h, t) \<in> set (pm_udp_pool pm') \<and> ph_local_port h = p \<and> ufrag = Some u \<and> u \<noteq> [] \<and>
    fmlookup (u_sessions t) (ep_session_id ep) = Some u \<and>
    socket_addr (env_resolve env) ep = Inr target \<and> fmlookup (u_routes t) u = Some target"
  using assms
proof (cases rule: create_pooled_cases)
  case (routed i h t t' u target effs')
  then have "(h, t') \<in> set (pm_udp_pool pm')" "ph_local_port h = p"
    by (simp_all add: set_update_memI)
  with routed add_route_delivered [OF routed(7)] show ?thesis by blast
qed simp_all

text \<open>A pooled deletion of a listed session that is delivered ends it, in the table and on the pool.\<close>

lemma delete_pooled_gone:
  assumes wf: "manager_wf pm" and mode: "pm_udp_mode pm = Pooled" and ports: "distinct (pooled_udp_ports pm)"
    and listed: "fmlookup (pm_udp_endpoints pm) (Session_of p sid) = Some ep" and net: "ci_net io = Delivered"
  shows "\<exists>pm' effs. delete_udp_proxy env pm p sid io = (Inr (), pm', effs) \<and>
    fmlookup (pm_udp_endpoints pm') (Session_of p sid) = None \<and> \<not> session_live (pm_udp_pool pm') (Session_of p sid)"
proof -
  from wf mode listed have "session_live (pm_udp_pool pm) (Session_of p sid)" by (simp add: manager_wf_def)
  then obtain i where find: "find_pooled p (pm_udp_pool pm) = Some i"
    using find_pooled_live by (fastforce simp: Session_of_def)
  obtain h t where ht: "pm_udp_pool pm ! i = (h, t)" by fastforce
  from find_pooled_Some [OF find] ht have i: "i < length (pm_udp_pool pm)" and p: "ph_local_port h = p" by auto
  obtain r0 t' effs' where rem: "handler_remove_session t sid (ci_rt io) (ci_net io) = (r0, t', effs')"
    by (metis prod_cases3)
  note task = remove_session_task [OF rem pool_task_wf [OF wf i ht]]
  have "delete_udp_proxy env pm p sid io =
      (Inr (), pm\<lparr>pm_udp_endpoints := fmdrop (Session_of p sid) (pm_udp_endpoints pm),
         pm_udp_pool := (pm_udp_pool pm)[i := (h, t')]\<rparr>, map OfUdp effs')"
    using mode listed find ht rem task net
    by (auto simp: delete_udp_proxy_def delete_pooled_udp_proxy_def Let_def)
  moreover have "\<not> session_live ((pm_udp_pool pm)[i := (h, t')]) (Session_of p sid)"
    using distinct_port_index [OF ports [unfolded pooled_udp_ports_def] i ht, of _ _ t'] task net p
    by (fastforce simp: session_live_def Session_of_def)
  ultimately show ?thesis by simp
qed

text \<open>
  C12. Allocation and deletion on the pool meet: a successful pooled allocation leaves the session
  on the socket of the answered port with its ufrag routed to the resolved target; deleting that
  port and session afterwards succeeds, and then neither the manager nor any socket with that
  port knows the session.  (The pool's ports are distinct.)
\<close>

theorem pooled_allocate_delete:
  assumes "manager_reachable env pm" and "pm_udp_mode pm = Pooled" and "distinct (pooled_udp_ports pm)"
    and "create_pooled_udp_proxy env pm ep ufrag io = Ret (Inr p, pm', effs)"
    and "ci_net io' = Delivered"
  shows "(\<exists>h t u target. (h, t) \<in> set (pm_udp_pool pm') \<and> ph_local_port h = p \<and> ufrag = Some u \<and>
      fmlookup (u_sessions t) (ep_session_id ep) = Some u \<and>
      socket_addr (env_resolve env) ep = Inr target \<and> fmlookup (u_routes t) u = Some target) \<and>
    (\<exists>pm'' effs'. delete_udp_proxy env pm' p (ep_session_id ep) io' = (Inr (), pm'', effs') \<and>
      fmlookup (pm_udp_endpoints pm'') (Session_of p (ep_session_id ep)) = None \<and>
      \<not> session_live (pm_udp_pool pm'') (Session_of p (ep_session_id ep)))"
proof -
  have wf: "manager_wf pm'" "pm_udp_mode pm' = Pooled" "distinct (pooled_udp_ports pm')"
    using create_pooled_wf [OF manager_reachable_wf [OF assms(1)] assms(2,4)] assms(3) by simp_all
  have "fmlookup (pm_udp_endpoints pm') (Session_of p (ep_session_id ep)) = Some ep"
    using assms(4) by (cases rule: create_pooled_cases) auto
  from delete_pooled_gone [OF wf this assms(5), of env] create_pooled_routed [OF assms(4)] show ?thesis by blast
qed

lemma create_by_mode_records:
  assumes "create_udp_by_mode env pm ep ufrag io = Ret (Inr p, pm', effs)"
  shows "fmlookup (pm_udp_endpoints pm') (Session_of p (ep_session_id ep)) = Some ep"
proof (cases "pm_udp_mode pm")
  case PerSession
  with assms have "create_udp_proxy_internal env pm ep io = (Inr p, pm', effs)"
    by (simp add: create_udp_by_mode_def)
  from create_udp_proxy_internal_frame [OF this] show ?thesis by simp
next
  case Pooled
  with assms have "create_pooled_udp_proxy env pm ep ufrag io = Ret (Inr p, pm', effs)"
    by (simp add: create_udp_by_mode_def)
  then show ?thesis by (cases rule: create_pooled_cases) auto
qed

lemma create_tcp_proxy_internal_records:
  "create_tcp_proxy_internal env pm ip wanted sid io = (Inr p, pm', effs) \<Longrightarrow>
     pm_tcp_endpoints pm' = fmupd (Session_of p sid) (Endpoint_new wanted ip sid) (pm_tcp_endpoints pm)"
  by (auto simp: create_tcp_proxy_internal_def Let_def Endpoint_new_def
      split: prod.splits rpc_result.splits ProxyManagerMsg.splits)

lemma create_tcp_records:
  assumes "create_tcp_if_wanted env pm request port_str io = (Inr p, pm', effs)"
  shows "\<exists>wanted :: u16. parse_word port_str = Inr wanted \<and>
    (if wanted = 0 then p = 0 \<and> pm' = pm
     else pm_tcp_endpoints pm' = fmupd (Session_of p (rq_session_id request))
       (Endpoint_new wanted (rq_target_ip request) (rq_session_id request)) (pm_tcp_endpoints pm))"
proof (cases "parse_word port_str :: ParseIntError + u16")
  case (Inr wanted)
  show ?thesis
  proof (cases "wanted = 0")
    case False
    with assms Inr create_tcp_proxy_internal_records show ?thesis
      by (fastforce simp: create_tcp_if_wanted_def)
  qed (use assms Inr in \<open>simp add: create_tcp_if_wanted_def\<close>)
qed (use assms in \<open>simp add: create_tcp_if_wanted_def\<close>)

text \<open>
  Everything an allocation answers is recorded: the UDP port, and each TCP port that
  is not 0, are recorded under the request's session with the endpoint they lead to; a TCP port
  that was not asked for is answered as 0.
\<close>

lemma create_proxy_records:
  assumes "create_proxy env pm request io = Ret (Inr resp, pm', effs)"
  shows "\<exists>(udp :: u16) (tcp :: u16) (ssl :: u16).
    parse_word (rq_target_udp_port request) = Inr udp \<and> parse_word (rq_target_tcp_port request) = Inr tcp \<and>
    parse_word (rq_target_ssl_tcp_port request) = Inr ssl \<and>
    fmlookup (pm_udp_endpoints pm') (Session_of (rs_proxy_udp_port resp) (rq_session_id request)) =
      Some (Endpoint_new udp (rq_target_ip request) (rq_session_id request)) \<and>
    (if tcp = 0 then rs_proxy_tcp_port resp = 0
     else Session_of (rs_proxy_tcp_port resp) (rq_session_id request) |\<in>| fmdom (pm_tcp_endpoints pm')) \<and>
    (if ssl = 0 then rs_proxy_ssl_tcp_port resp = 0
     else fmlookup (pm_tcp_endpoints pm') (Session_of (rs_proxy_ssl_tcp_port resp) (rq_session_id request)) =
       Some (Endpoint_new ssl (rq_target_ip request) (rq_session_id request)))"
  using assms
proof (cases rule: create_proxy_cases)
  case (ssl port ep p1 pm1 effs1 p2 pm2 effs2 r3 effs3)
  then obtain p3 where r3: "r3 = Inr p3" and resp: "rs_proxy_udp_port resp = p1" "rs_proxy_tcp_port resp = p2"
    "rs_proxy_ssl_tcp_port resp = p3"
    by (cases r3) auto
  obtain tcp :: u16 where tcp: "parse_word (rq_target_tcp_port request) = Inr tcp"
    "if tcp = 0 then p2 = 0 \<and> pm2 = pm1
     else pm_tcp_endpoints pm2 = fmupd (Session_of p2 (rq_session_id request))
       (Endpoint_new tcp (rq_target_ip request) (rq_session_id request)) (pm_tcp_endpoints pm1)"
    using create_tcp_records [OF ssl(4)] by blast
  obtain ssl' :: u16 where ssl': "parse_word (rq_target_ssl_tcp_port request) = Inr ssl'"
    "if ssl' = 0 then p3 = 0 \<and> pm' = pm2
     else pm_tcp_endpoints pm' = fmupd (Session_of p3 (rq_session_id request))
       (Endpoint_new ssl' (rq_target_ip request) (rq_session_id request)) (pm_tcp_endpoints pm2)"
    using create_tcp_records [OF ssl(5) [unfolded r3]] by blast
  have "fmlookup (pm_udp_endpoints pm') (Session_of p1 (rq_session_id request)) = Some ep"
    using create_by_mode_records [OF ssl(3)] create_tcp_frame [OF ssl(4)] create_tcp_frame [OF ssl(5)] ssl(2)
    by (simp add: Endpoint_new_def)
  with tcp ssl' ssl(1,2) show ?thesis
    by (auto simp: resp split: if_splits)
qed simp_all

section \<open>Round robin\<close>

text \<open>A sequence of pooled allocations.\<close>

fun create_pooled_all :: "Env \<Rightarrow> ProxyManager \<Rightarrow> (Endpoint \<times> string option \<times> call_io) list
    \<Rightarrow> (u16 result list \<times> ProxyManager) exec" where
  "create_pooled_all env pm [] = Ret ([], pm)"
| "create_pooled_all env pm ((ep, ufrag, io) # reqs) =
     exec_bind (create_pooled_udp_proxy env pm ep ufrag io) (\<lambda>(r, pm1, effs).
       exec_bind (create_pooled_all env pm1 reqs) (\<lambda>(rs, pm2). Ret (r # rs, pm2)))"

lemma create_pooled_next:
  assumes "create_pooled_udp_proxy env pm ep ufrag io = Ret (Inr p, pm', effs)"
  shows "p = pooled_udp_ports pm ! (unat (pm_next_pooled pm) mod length (pm_udp_pool pm)) \<and>
    pm_next_pooled pm' = pm_next_pooled pm + 1 \<and> pooled_udp_ports pm' = pooled_udp_ports pm"
  using assms
proof (cases rule: create_pooled_cases)
  case (routed i h t t' u target effs')
  then have i: "i < length (pm_udp_pool pm)" by simp
  with routed pool_update_ports [OF i routed(3)] show ?thesis
    by (simp add: pooled_udp_ports_def)
qed simp_all

lemma length_pooled_udp_ports: "length (pooled_udp_ports pm) = length (pm_udp_pool pm)"
  by (simp add: pooled_udp_ports_def)

lemma create_pooled_all_ports:
  "create_pooled_all env pm reqs = Ret (map Inr ps, pm') \<Longrightarrow>
     ps = map (\<lambda>k. pooled_udp_ports pm ! (unat (pm_next_pooled pm + of_nat k) mod length (pooled_udp_ports pm)))
       [0..<length reqs]"
proof (induction reqs arbitrary: pm ps)
  case (Cons x reqs)
  obtain ep ufrag io where x: "x = (ep, ufrag, io)" by (metis prod_cases3)
  from Cons.prems obtain p ps' pm1 effs where ps: "ps = p # ps'"
    and one: "create_pooled_udp_proxy env pm ep ufrag io = Ret (Inr p, pm1, effs)"
    and rest: "create_pooled_all env pm1 reqs = Ret (map Inr ps', pm')"
    by (auto simp: x exec_bind_Ret_iff Cons_eq_map_conv)
  from Cons.IH [OF rest] create_pooled_next [OF one] show ?case
    by (simp add: ps length_pooled_udp_ports map_upt_Suc add.assoc del: upt_Suc)
qed simp

lemma distinct_count: "distinct xs \<Longrightarrow> count_list xs x = (if x \<in> set xs then 1 else 0)"
  by (induction xs) auto

lemma count_round:
  assumes "i < n"
  shows "count_list (map (\<lambda>k. (a + k) mod n) [0..<n]) i = 1"
proof -
  let ?xs = "map (\<lambda>k. (a + k) mod n) [0..<n]"
  have inj: "inj_on (\<lambda>k. (a + k) mod n) {0..<n}"
  proof (rule linorder_inj_onI)
    fix k l assume "k < l" "l \<in> {0..<n}"
    then have "\<not> n dvd (a + l) - (a + k)" by (auto dest: dvd_imp_le)
    then show "(a + k) mod n \<noteq> (a + l) mod n"
      using \<open>k < l\<close> mod_eq_dvd_iff_nat [of "a + k" "a + l" n] by auto
  qed auto
  then have "distinct ?xs" by (simp add: distinct_map)
  moreover have "set ?xs = {0..<n}"
  proof (rule card_subset_eq)
    show "set ?xs \<subseteq> {0..<n}" using assms by auto
    show "card (set ?xs) = card {0..<n}" using inj by (simp add: card_image)
  qed simp
  ultimately show ?thesis
    using assms count_notin distinct_count [of ?xs i] by auto
qed

lemma count_rounds:
  assumes "i < n"
  shows "count_list (map (\<lambda>k. (a + k) mod n) [0..<m * n]) i = m"
proof (induction m)
  case (Suc m)
  have "map (\<lambda>k. m * n + k) [0..<n] = [m * n..<m * n + n]"
    using map_add_upt [of "m * n" n] by (simp add: add.commute)
  then have "[0..<Suc m * n] = [0..<m * n] @ map (\<lambda>k. m * n + k) [0..<n]"
    using upt_add_eq_append [of 0 "m * n" n] by (simp add: add.commute)
  moreover have "(a + (m * n + k)) mod n = (a + k) mod n" for k
    by (metis add.left_commute mod_mult_self3)
  ultimately show ?case
    using Suc.IH count_round [OF assms, of a] by (simp add: comp_def)
qed simp

lemma count_nth:
  assumes "distinct xs" "i < length xs" "list_all (\<lambda>k. k < length xs) is"
  shows "count_list (map (\<lambda>k. xs ! k) is) (xs ! i) = count_list is i"
  using assms(3) by (induction "is") (auto simp: nth_eq_iff_index_eq assms(1,2))

text \<open>
  C17. Round robin spreads sessions evenly: \<open>m\<close> times as many consecutive pooled allocations as
  there are sockets give every pooled port to exactly \<open>m\<close> of them, from whatever position the
  counter is in, as long as it does not wrap around in between.
\<close>

theorem round_robin_even:
  assumes "create_pooled_all env pm reqs = Ret (map Inr ps, pm')"
    and "length reqs = m * length (pooled_udp_ports pm)" and "distinct (pooled_udp_ports pm)"
    and "unat (pm_next_pooled pm) + length reqs \<le> 2 ^ 64"
  shows "map (count_list ps) (pooled_udp_ports pm) = replicate (length (pooled_udp_ports pm)) m"
proof (rule nth_equalityI)
  fix i
  let ?ports = "pooled_udp_ports pm" and ?a = "unat (pm_next_pooled pm)"
  assume "i < length (map (count_list ps) ?ports)"
  then have i: "i < length ?ports" by simp
  have "unat (pm_next_pooled pm + of_nat k) = ?a + k" if "k < length reqs" for k
    using that assms(4) by (simp add: unat_word_ariths unat_of_nat)
  then have "ps = map (\<lambda>k. ?ports ! ((?a + k) mod length ?ports)) [0..<length reqs]"
    unfolding create_pooled_all_ports [OF assms(1)] by (intro map_cong) auto
  then have "ps = map (\<lambda>k. ?ports ! k) (map (\<lambda>k. (?a + k) mod length ?ports) [0..<m * length ?ports])"
    by (simp add: assms(2) comp_def)
  moreover have "list_all (\<lambda>k. k < length ?ports) (map (\<lambda>k. (?a + k) mod length ?ports) [0..<m * length ?ports])"
    using i by (simp add: list_all_iff) (metis length_greater_0_conv length_pos_if_in_set mod_less_divisor nth_mem)
  ultimately have "count_list ps (?ports ! i) = m"
    using count_nth [OF assms(3) i] count_rounds [OF i] by metis
  with i show "map (count_list ps) ?ports ! i = replicate (length ?ports) m ! i" by simp
qed simp

section \<open>A concrete manager\<close>

abbreviation demo_ios :: "nat \<Rightarrow> pool_io" where
  "demo_ios i \<equiv> \<lparr>pb_fails = \<lambda>_. None, pb_port = 4000 + of_nat i, pb_sock = i, pb_chan = i, pb_task = i\<rparr>"

abbreviation demo_pooled :: ProxyManager where
  "demo_pooled \<equiv> ProxyManager_new\<lparr>pm_udp_pool := map (\<lambda>i. bound_handle (demo_ios i)) [0, 1], pm_udp_mode := Pooled\<rparr>"

abbreviation demo_call :: call_io where
  "demo_call \<equiv> \<lparr>ci_ahead = [], ci_net = Delivered, ci_mgr = demo_mio, ci_rt = 1\<rparr>"

abbreviation demo_acall :: alloc_call_io where
  "demo_acall \<equiv> \<lparr>ac_udp = demo_call, ac_tcp = demo_call, ac_ssl = demo_call\<rparr>"

abbreviation demo_request :: AllocateRequest where
  "demo_request \<equiv> \<lparr>rq_target_udp_port = ''80'', rq_target_tcp_port = ''443'', rq_target_ssl_tcp_port = ''0'',
     rq_target_ip = ''h'', rq_session_id = ''s'', rq_ufrag = Some ''u''\<rparr>"

lemma first_error_none [simp]: "first_error (\<lambda>_. None) cs = None"
  by (induction cs) simp_all

lemma demo_binds: "binds base demo_ios i"
  by (simp add: binds_def)

lemma demo_started: "fst (with_udp_pool 2 4000 demo_ios) = Inr demo_pooled"
proof -
  have "unat (2 :: usize) = 2" "unat (4000 :: u16) = 4000" by simp_all
  then show ?thesis
    by (simp add: with_udp_pool_eq demo_binds Let_def upt_rec)
qed

lemma demo_pooled_reachable: "manager_reachable env demo_pooled"
  by (rule mgr_start [OF demo_started])

lemma demo_ports: "pooled_udp_ports demo_pooled = [4000, 4001]"
  by (simp add: pooled_udp_ports_def bound_handle_def)

lemma demo_parse:
  "parse_word ''80'' = Inr (80 :: u16)" "parse_word ''443'' = Inr (443 :: u16)" "parse_word ''0'' = Inr (0 :: u16)"
  "\<exists>e. parse_word ''x'' = (Inl e :: ParseIntError + u16)"
proof -
  have dec: "dec_string 80 = ''80''" "dec_string 443 = ''443''" "dec_string 0 = ''0''"
    by code_simp+
  show "parse_word ''80'' = Inr (80 :: u16)" "parse_word ''443'' = Inr (443 :: u16)" "parse_word ''0'' = Inr (0 :: u16)"
    using parse_word_dec_string [of "80 :: u16"] parse_word_dec_string [of "443 :: u16"]
      parse_word_dec_string [of "0 :: u16"] by (simp_all add: dec)
  show "\<exists>e. parse_word ''x'' = (Inl e :: ParseIntError + u16)"
    by (simp add: parse_word_def parse_uint_def to_digit_def)
qed

lemmas create_eval = create_proxy_def create_udp_by_mode_def create_pooled_udp_proxy_def
  create_udp_proxy_internal_def create_tcp_if_wanted_def create_tcp_proxy_internal_def handler_add_route_def
  rpc_def socket_addr_def iter_next_def demo_parse Let_def Endpoint_new_def Session_of_def

lemma demo_allocated:
  "\<exists>pm effs. create_proxy demo_env demo_pooled demo_request demo_acall =
     Ret (Inr \<lparr>rs_proxy_udp_port = 4000, rs_proxy_tcp_port = 5000, rs_proxy_ssl_tcp_port = 0\<rparr>, pm, effs) \<and>
     pm_udp_mode pm = Pooled \<and>
     fmlookup (pm_udp_endpoints pm) (Session_of 4000 ''s'') = Some (Endpoint_new 80 ''h'' ''s'') \<and>
     list_all (\<lambda>(h, t). u_clients t = fmempty) (pm_udp_pool pm)"
  by (simp add: create_eval ProxyManager_new_def bound_handle_def PooledUdpEndpoint_new_def manager_new_def
      tcp_impl_defs)

theorem with_udp_pool_ports_witness:
  "\<exists>pm. fst (with_udp_pool 2 4000 demo_ios) = Inr pm \<and> map unat (pooled_udp_ports pm) = [4000, 4001]"
proof -
  have "(4000 :: u16) \<noteq> 0" "\<forall>i. binds 4000 demo_ios i \<longrightarrow> pb_port (demo_ios i) = 4000 + of_nat i"
    by simp_all
  from with_udp_pool_ports [OF this, of 2] show ?thesis
    by (simp add: demo_started demo_binds upt_rec)
qed

theorem create_proxy_panics_iff_witness:
  "create_proxy demo_env demo_pooled (demo_request\<lparr>rq_target_udp_port := ''x''\<rparr>) demo_acall = Panic \<and>
   create_proxy demo_env demo_pooled demo_request demo_acall \<noteq> Panic"
  using create_proxy_panics_iff [OF demo_pooled_reachable] by (simp add: demo_parse)

theorem listed_session_routed_witness:
  "\<exists>pm h t u target. create_proxy demo_env demo_pooled demo_request demo_acall =
     Ret (Inr \<lparr>rs_proxy_udp_port = 4000, rs_proxy_tcp_port = 5000, rs_proxy_ssl_tcp_port = 0\<rparr>, pm) \<and>
     (h, t) \<in> set (pm_udp_pool (fst pm)) \<and> ph_local_port h = 4000 \<and>
     fmlookup (u_sessions t) ''s'' = Some u \<and> fmlookup (u_routes t) u = Some target"
proof -
  obtain pm effs where alloc: "create_proxy demo_env demo_pooled demo_request demo_acall =
      Ret (Inr \<lparr>rs_proxy_udp_port = 4000, rs_proxy_tcp_port = 5000, rs_proxy_ssl_tcp_port = 0\<rparr>, pm, effs)"
    "pm_udp_mode pm = Pooled"
    "fmlookup (pm_udp_endpoints pm) (Session_of 4000 ''s'') = Some (Endpoint_new 80 ''h'' ''s'')"
    using demo_allocated by blast
  from listed_session_routed [OF mgr_allocate [OF demo_pooled_reachable alloc(1)] alloc(2,3)] alloc(1)
  show ?thesis by auto
qed

lemma demo_pooled_create:
  "\<exists>pm effs. create_pooled_udp_proxy demo_env demo_pooled demo_ep (Some ''u'') demo_call = Ret (Inr 4000, pm, effs)"
  by (simp add: create_eval ProxyManager_new_def bound_handle_def PooledUdpEndpoint_new_def)

theorem pooled_allocate_delete_witness:
  "\<exists>pm effs pm' effs'. create_pooled_udp_proxy demo_env demo_pooled demo_ep (Some ''u'') demo_call = Ret (Inr 4000, pm, effs) \<and>
     delete_udp_proxy demo_env pm 4000 ''s'' demo_call = (Inr (), pm', effs')"
proof -
  obtain pm effs where c: "create_pooled_udp_proxy demo_env demo_pooled demo_ep (Some ''u'') demo_call = Ret (Inr 4000, pm, effs)"
    using demo_pooled_create by blast
  have ports: "distinct (pooled_udp_ports demo_pooled)"
    unfolding demo_ports by simp
  have "pm_udp_mode demo_pooled = Pooled" "ci_net demo_call = Delivered"
    by simp_all
  from pooled_allocate_delete [OF demo_pooled_reachable this(1) ports c this(2)] c show ?thesis
    by (auto simp: Endpoint_new_def)
qed

theorem round_robin_even_witness:
  "\<exists>ps pm. create_pooled_all demo_env demo_pooled
      [(demo_ep, Some ''u'', demo_call), (Endpoint_new 80 ''h'' ''s2'', Some ''v'', demo_call)] = Ret (map Inr ps, pm) \<and>
     map (count_list ps) [4000, 4001] = [1, 1]"
proof -
  obtain pm where run: "create_pooled_all demo_env demo_pooled
      [(demo_ep, Some ''u'', demo_call), (Endpoint_new 80 ''h'' ''s2'', Some ''v'', demo_call)] =
      Ret (map Inr [4000, 4001], pm)"
    by (simp add: create_eval ProxyManager_new_def bound_handle_def PooledUdpEndpoint_new_def)
  have "length [(demo_ep, Some ''u'', demo_call), (Endpoint_new 80 ''h'' ''s2'', Some ''v'', demo_call)] =
      1 * length (pooled_udp_ports demo_pooled)" "distinct (pooled_udp_ports demo_pooled)"
    unfolding demo_ports by simp_all
  from round_robin_even [OF run this] have "map (count_list [4000, 4001]) [4000, 4001 :: u16] = [1, 1]"
    by (simp only: demo_ports) (simp add: ProxyManager_new_def numeral_2_eq_2)
  then show ?thesis using run by (intro exI conjI)
qed

section \<open>Allocation and deletion where they fall short\<close>

text \<open>What a call to the manager's task leaves of the UDP endpoints.\<close>

lemma answers_udp: "answers (map OfUdp effs @ [Respond rt m]) = [(rt, m)]"
  by (simp del: map_map)

lemma create_udp_internal_impl:
  assumes "create_udp_proxy_internal env pm ep io = (Inr p, pm', effs)"
    and "manager_run env (pm_tx pm) (ci_ahead io) = (task1, effs1)"
  shows "\<exists>m es. create_udp_proxy_impl env (mt_udp_proxy task1) ep (mio_bind (ci_mgr io)) = (Inr p, m, es) \<and>
    mt_udp_proxy (pm_tx pm') = m \<and> effs = effs1 @ map OfUdp es @ [Respond (ci_rt io) (CreateUdpProxyRs p)]"
proof -
  obtain r m es where impl: "create_udp_proxy_impl env (mt_udp_proxy task1) ep (mio_bind (ci_mgr io)) = (r, m, es)"
    by (metis prod_cases3)
  with assms show ?thesis
    by (auto simp: create_udp_proxy_internal_def rpc_def answers_udp Let_def simp del: concat_append map_append
        split: rpc_io.splits sum.splits)
qed

lemma create_udp_internal_registered:
  assumes "create_udp_proxy_internal env pm ep io = (Inr p, pm', effs)"
  shows "\<exists>h. fmlookup (mt_udp_proxy (pm_tx pm')) ep = Some h \<and> eh_local_port h = p"
proof -
  obtain task1 effs1 where "manager_run env (pm_tx pm) (ci_ahead io) = (task1, effs1)" by fastforce
  from create_udp_internal_impl [OF assms this] udp_table.create_lookup(1) show ?thesis by fastforce
qed

lemma create_tcp_task:
  assumes "create_tcp_if_wanted env pm request port_str io = (r, pm', effs)"
  shows "pm_tx pm' = pm_tx pm \<or> (\<exists>ep. pm_tx pm' = fst (snd (rpc env (pm_tx pm) (CreateTcpProxy (ci_rt io) ep) io)))"
  using assms
  by (auto simp: create_tcp_if_wanted_def create_tcp_proxy_internal_def Let_def
      split: prod.splits sum.splits rpc_result.splits ProxyManagerMsg.splits if_splits) (metis fst_conv snd_conv)+

lemma create_tcp_keeps_udp:
  assumes "create_tcp_if_wanted env pm request port_str io = (r, pm', effs)"
    and "fmlookup (mt_udp_proxy (pm_tx pm)) ep = Some h" "\<forall>m\<in>set (ci_ahead io). \<not> ends_udp ep (fst m)"
  shows "fmlookup (mt_udp_proxy (pm_tx pm')) ep = Some h"
proof -
  obtain task1 effs1 where ahead: "manager_run env (pm_tx pm) (ci_ahead io) = (task1, effs1)" by fastforce
  have "fmlookup (mt_udp_proxy task1) ep = Some h"
    using manager_run_keeps_udp [OF assms(2,3), of env] ahead by simp
  then have "fmlookup (mt_udp_proxy (fst (snd (rpc env (pm_tx pm) (CreateTcpProxy rt ep') io)))) ep = Some h" for rt ep'
    using assms(2) ahead by (auto simp: rpc_def split: rpc_io.splits prod.splits option.splits)
  with create_tcp_task [OF assms(1)] assms(2) show ?thesis by metis
qed

text \<open>
  C35. An allocation that fails on a TCP port does not undo the UDP part: the caller gets an error,
  while the session stays listed under the UDP port it was not told.  In pooled mode the socket with
  that port serves the session; in per-session mode the session's endpoint stays registered with the
  manager's task under that port, unless it has ended by itself or was deleted meanwhile.
\<close>

theorem failed_allocation_keeps_udp:
  assumes "manager_reachable env pm" and "create_proxy env pm request io = Ret (Inl e, pm', effs)"
    and "parse_word (rq_target_udp_port request) = Inr port"
    and "ep = Endpoint_new port (rq_target_ip request) (rq_session_id request)"
    and "create_udp_by_mode env pm ep (rq_ufrag request) (ac_udp io) = Ret (Inr p, pm1, effs1)"
  shows "fmlookup (pm_udp_endpoints pm') (Session_of p (rq_session_id request)) = Some ep \<and>
    (pm_udp_mode pm = Pooled \<longrightarrow> session_live (pm_udp_pool pm') (Session_of p (rq_session_id request))) \<and>
    (pm_udp_mode pm = PerSession \<longrightarrow>
      (\<forall>m\<in>set (ci_ahead (ac_tcp io)) \<union> set (ci_ahead (ac_ssl io)). \<not> ends_udp ep (fst m)) \<longrightarrow>
      (\<exists>h. fmlookup (mt_udp_proxy (pm_tx pm')) ep = Some h \<and> eh_local_port h = p))"
proof -
  have kept: "pm_udp_endpoints pm' = pm_udp_endpoints pm1 \<and>
    (\<forall>h. fmlookup (mt_udp_proxy (pm_tx pm1)) ep = Some h \<longrightarrow>
      (\<forall>m\<in>set (ci_ahead (ac_tcp io)) \<union> set (ci_ahead (ac_ssl io)). \<not> ends_udp ep (fst m)) \<longrightarrow>
      fmlookup (mt_udp_proxy (pm_tx pm')) ep = Some h)"
    using assms(2)
  proof (cases rule: create_proxy_cases)
    case udp
    with assms(3-5) show ?thesis by simp
  next
    case tcp
    with assms(3-5) create_tcp_frame [OF tcp(4)] create_tcp_keeps_udp [OF tcp(4)] show ?thesis by simp
  next
    case ssl
    with assms(3-5) create_tcp_frame [OF ssl(4)] create_tcp_frame [OF ssl(5)]
      create_tcp_keeps_udp [OF ssl(4)] create_tcp_keeps_udp [OF ssl(5)] show ?thesis by simp
  qed
  then have listed: "fmlookup (pm_udp_endpoints pm') (Session_of p (rq_session_id request)) = Some ep"
    using create_by_mode_records [OF assms(5)] by (simp add: assms(4) Endpoint_new_def)
  have pooled: "manager_wf pm' \<and> pm_udp_mode pm' = pm_udp_mode pm"
    using create_proxy_wf [OF manager_reachable_wf [OF assms(1)] assms(2)] by simp
  have "\<exists>h. fmlookup (mt_udp_proxy (pm_tx pm1)) ep = Some h \<and> eh_local_port h = p" if "pm_udp_mode pm = PerSession"
    using that assms(5) create_udp_internal_registered [of env pm ep] by (simp add: create_udp_by_mode_def)
  with kept have "\<exists>h. fmlookup (mt_udp_proxy (pm_tx pm')) ep = Some h \<and> eh_local_port h = p"
    if "pm_udp_mode pm = PerSession" "\<forall>m\<in>set (ci_ahead (ac_tcp io)) \<union> set (ci_ahead (ac_ssl io)). \<not> ends_udp ep (fst m)"
    using that by blast
  with listed pooled show ?thesis by (simp add: manager_wf_def)
qed

theorem failed_allocation_keeps_udp_witness:
  "\<exists>e pm effs. create_proxy demo_env demo_pooled (demo_request\<lparr>rq_target_tcp_port := ''x''\<rparr>) demo_acall =
     Ret (Inl e, pm, effs) \<and>
     fmlookup (pm_udp_endpoints pm) (Session_of 4000 ''s'') = Some (Endpoint_new 80 ''h'' ''s'')"
proof -
  let ?rq = "demo_request\<lparr>rq_target_tcp_port := ''x''\<rparr>"
  obtain e where "parse_word ''x'' = (Inl e :: ParseIntError + u16)"
    using demo_parse(4) by blast
  then obtain err pm effs where fails: "create_proxy demo_env demo_pooled ?rq demo_acall = Ret (Inl err, pm, effs)"
    by (simp add: create_eval ProxyManager_new_def bound_handle_def PooledUdpEndpoint_new_def)
  obtain pm1 effs1 where udp: "create_udp_by_mode demo_env demo_pooled
      (Endpoint_new 80 (rq_target_ip ?rq) (rq_session_id ?rq)) (rq_ufrag ?rq) (ac_udp demo_acall) = Ret (Inr 4000, pm1, effs1)"
    by (simp add: create_eval ProxyManager_new_def bound_handle_def PooledUdpEndpoint_new_def)
  have "parse_word (rq_target_udp_port ?rq) = Inr (80 :: u16)" by (simp add: demo_parse)
  from failed_allocation_keeps_udp [OF demo_pooled_reachable fails this refl udp] fails show ?thesis by simp
qed

text \<open>
  C36. A deletion that times out before its message is on the channel strands the session: in every
  reachable state, the manager has already forgotten a session it listed, every later deletion is
  answered with \<open>No such endpoint\<close> and changes nothing, and a pooled socket with that port still
  knows the session and routes its ufrag.
\<close>

theorem cut_deletion_strands_session:
  assumes "manager_reachable env pm" and "pm_udp_mode pm = Pooled"
    and "fmlookup (pm_udp_endpoints pm) (Session_of p sid) = Some ep"
  shows "\<exists>pm' h t u target. delete_udp_proxy_cut env pm p sid io False = Some (pm', []) \<and>
    manager_reachable env pm' \<and> (\<forall>io'. delete_udp_proxy env pm' p sid io' = (Inl ''No such endpoint'', pm', [])) \<and>
    (h, t) \<in> set (pm_udp_pool pm') \<and> ph_local_port h = p \<and>
    fmlookup (u_sessions t) sid = Some u \<and> fmlookup (u_routes t) u = Some target"
proof -
  let ?pm' = "pm\<lparr>pm_udp_endpoints := fmdrop (Session_of p sid) (pm_udp_endpoints pm)\<rparr>"
  obtain h t u target where ht: "(h, t) \<in> set (pm_udp_pool pm)" "ph_local_port h = p"
    "fmlookup (u_sessions t) sid = Some u" "fmlookup (u_routes t) u = Some target"
    using reachable_session_routed [OF assms] by blast
  then have "session_live (pm_udp_pool pm) (Session_of p sid)"
    unfolding session_live_def Session_of_def by (auto intro: fmdomI)
  then obtain i where "find_pooled p (pm_udp_pool pm) = Some i"
    using find_pooled_live by (fastforce simp: Session_of_def)
  then have cut: "delete_udp_proxy_cut env pm p sid io False = Some (?pm', [])"
    using assms(2,3) by (simp add: delete_udp_proxy_cut_def control_cut_def)
  moreover have "delete_udp_proxy env ?pm' p sid io' = (Inl ''No such endpoint'', ?pm', [])" for io'
    using assms(2) by (simp add: delete_udp_proxy_def delete_pooled_udp_proxy_def)
  ultimately show ?thesis
    using ht mgr_delete_udp_cut [OF assms(1) cut] by (intro exI [of _ ?pm'] exI [of _ h] exI [of _ t]) auto
qed

text \<open>
  C37. An allocation that times out after its route was handed over leaves the route behind: the
  answer is lost, the manager lists nothing new, so that the session cannot be deleted on that
  port unless it was listed there before, and the socket routes the ufrag to the target.
\<close>

theorem cut_allocation_leaves_route:
  assumes "manager_reachable env pm" and "pm_udp_mode pm = Pooled"
    and "parse_word (rq_target_udp_port request) = Inr port"
    and "rq_ufrag request = Some u" and "u \<noteq> []"
    and "socket_addr (env_resolve env) (Endpoint_new port (rq_target_ip request) (rq_session_id request)) = Inr target"
  shows "\<exists>pm' effs h t. create_proxy_cut env pm request io AtUdp True = Some (pm', effs) \<and>
    manager_reachable env pm' \<and> pm_udp_endpoints pm' = pm_udp_endpoints pm \<and>
    (h, t) \<in> set (pm_udp_pool pm') \<and> fmlookup (u_sessions t) (rq_session_id request) = Some u \<and>
    fmlookup (u_routes t) u = Some target"
proof -
  let ?ep = "Endpoint_new port (rq_target_ip request) (rq_session_id request)"
  have pool: "pm_udp_pool pm \<noteq> []"
    using manager_reachable_wf [OF assms(1)] assms(2) by (simp add: manager_wf_def)
  define i where "i = unat (pm_next_pooled pm) mod length (pm_udp_pool pm)"
  have i: "i < length (pm_udp_pool pm)" using pool by (simp add: i_def)
  obtain h t where ht: "pm_udp_pool pm ! i = (h, t)" by fastforce
  obtain t' effs where add: "on_control t (AddRoute (rq_session_id request) u target (ci_rt (ac_udp io))) = (t', effs)"
    by fastforce
  let ?pm' = "pm\<lparr>pm_next_pooled := pm_next_pooled pm + 1, pm_udp_pool := (pm_udp_pool pm)[i := (h, t')]\<rparr>"
  have cut: "create_proxy_cut env pm request io AtUdp True = Some (?pm', map OfUdp effs)"
    using assms(2-6) pool ht add
    by (simp add: create_proxy_cut_def create_udp_cut_def control_cut_def Endpoint_new_def flip: i_def
        del: on_control.simps)
  have "fmlookup (u_sessions t') (rq_session_id request) = Some u" "fmlookup (u_routes t') u = Some target"
    using on_control_AddRoute(1) [OF add] on_control_AddRoute(3) [OF add, of u] by simp_all
  moreover have "(h, t') \<in> set (pm_udp_pool ?pm')" using i by (simp add: set_update_memI)
  ultimately show ?thesis
    using cut mgr_allocate_cut [OF assms(1) cut] by (intro exI [of _ ?pm'] exI [of _ h] exI [of _ t']) auto
qed

theorem cut_deletion_strands_session_witness:
  "\<exists>pm pm'. manager_reachable demo_env pm \<and>
     delete_udp_proxy_cut demo_env pm 4000 ''s'' demo_call False = Some (pm', []) \<and>
     delete_udp_proxy demo_env pm' 4000 ''s'' demo_call = (Inl ''No such endpoint'', pm', [])"
proof -
  obtain pm effs where alloc: "create_proxy demo_env demo_pooled demo_request demo_acall =
      Ret (Inr \<lparr>rs_proxy_udp_port = 4000, rs_proxy_tcp_port = 5000, rs_proxy_ssl_tcp_port = 0\<rparr>, pm, effs)"
    "pm_udp_mode pm = Pooled"
    "fmlookup (pm_udp_endpoints pm) (Session_of 4000 ''s'') = Some (Endpoint_new 80 ''h'' ''s'')"
    using demo_allocated by blast
  note reach = mgr_allocate [OF demo_pooled_reachable alloc(1)]
  from cut_deletion_strands_session [OF reach alloc(2,3), of demo_call] reach show ?thesis by blast
qed

theorem cut_allocation_leaves_route_witness:
  "\<exists>pm effs h t target. create_proxy_cut demo_env demo_pooled demo_request demo_acall AtUdp True = Some (pm, effs) \<and>
     pm_udp_endpoints pm = fmempty \<and> (h, t) \<in> set (pm_udp_pool pm) \<and> fmlookup (u_routes t) ''u'' = Some target"
proof -
  have mode: "pm_udp_mode demo_pooled = Pooled" and rq: "rq_ufrag demo_request = Some ''u''" "''u'' \<noteq> []"
    and port: "parse_word (rq_target_udp_port demo_request) = Inr (80 :: u16)"
    by (simp_all add: demo_parse)
  have "\<exists>target. socket_addr (env_resolve demo_env)
       (Endpoint_new 80 (rq_target_ip demo_request) (rq_session_id demo_request)) = Inr target"
    by (simp add: socket_addr_def iter_next_def Endpoint_new_def)
  then obtain target where target: "socket_addr (env_resolve demo_env)
       (Endpoint_new 80 (rq_target_ip demo_request) (rq_session_id demo_request)) = Inr target" ..
  have "pm_udp_endpoints demo_pooled = fmempty" by (simp add: ProxyManager_new_def)
  with cut_allocation_leaves_route [OF demo_pooled_reachable mode port rq target, of demo_acall] show ?thesis
    by metis
qed

text \<open>
  In per-session mode a deletion leaves the session in the manager's table and reports success
  whatever the task answered, so it can be repeated for ever.
\<close>

lemma per_session_delete_keeps_entry:
  assumes "pm_udp_mode pm = PerSession"
    and "fmlookup (pm_udp_endpoints pm) (Session_of p sid) = Some ep" and "ci_net io \<noteq> SendClosed"
  shows "\<exists>pm' effs. delete_udp_proxy env pm p sid io = (Inr (), pm', effs) \<and>
    pm_udp_endpoints pm' = pm_udp_endpoints pm"
  using assms
  by (auto simp: delete_udp_proxy_def rpc_def split: rpc_io.splits prod.splits option.splits)

end
