(* ===== verification/Config.thy ===== *)
theory Config
  imports Prelude
begin

text \<open>
  The configuration, module \<open>consts\<close> of \<^verbatim>\<open>src/lib.rs\<close>: every setting is read from an environment
  variable, with a default.  \<open>var\<close> is the environment (\<open>None\<close> for a variable that is missing or
  not Unicode).  A numeric setting that does not parse at its width falls back to the default.
\<close>

type_synonym environment = "string \<Rightarrow> string option"

text \<open>\<open>match var(name) { Ok(s) => s, Err(_) => default }\<close> and its numeric variant.\<close>

definition env_string :: "environment \<Rightarrow> string \<Rightarrow> string \<Rightarrow> string" where
  "env_string var name default_to = (case var name of Some s \<Rightarrow> s | None \<Rightarrow> default_to)"

definition env_word :: "environment \<Rightarrow> string \<Rightarrow> 'a::len word \<Rightarrow> 'a word" where
  "env_word var name default_to =
     (case var name of
        Some s \<Rightarrow> (case parse_word s of Inr n \<Rightarrow> n | Inl e \<Rightarrow> default_to)
      | None \<Rightarrow> default_to)"

definition REGISTER_ENDPOINT :: "environment \<Rightarrow> string" where
  "REGISTER_ENDPOINT var = env_string var ''REGISTER_ENDPOINT'' ''ws://localhost:5555''"

definition SERVICE_PORT :: "environment \<Rightarrow> u16" where
  "SERVICE_PORT var = env_word var ''SERVICE_PORT'' 3333"

definition METRICS_PORT :: "environment \<Rightarrow> u16" where
  "METRICS_PORT var = env_word var ''METRICS_PORT'' 9321"

definition TRAFFIC_WAIT_TIMEOUT :: "environment \<Rightarrow> u64" where
  "TRAFFIC_WAIT_TIMEOUT var = env_word var ''TRAFFIC_WAIT_TIMEOUT'' 5"

definition HTTP_REQUEST_TIMEOUT :: "environment \<Rightarrow> u64" where
  "HTTP_REQUEST_TIMEOUT var = env_word var ''HTTP_REQUEST_TIMEOUT'' 1000"

definition HTTP_REQUEST_CONCURRENT_NUM :: "environment \<Rightarrow> usize" where
  "HTTP_REQUEST_CONCURRENT_NUM var = env_word var ''HTTP_REQUEST_CONCURRENT_NUM'' 128"

definition PUBLIC_IPV4 :: "environment \<Rightarrow> string" where
  "PUBLIC_IPV4 var = env_string var ''PUBLIC_IPV4'' ''127.0.0.1''"

definition PUBLIC_IPV6 :: "environment \<Rightarrow> string" where
  "PUBLIC_IPV6 var = env_string var ''PUBLIC_IPV6'' ''::1''"

definition PRIVATE_IP :: "environment \<Rightarrow> string" where
  "PRIVATE_IP var = env_string var ''PRIVATE_IP'' ''192.168.49.1:3333''"

definition AVAILABILITY_ZONE :: "environment \<Rightarrow> string" where
  "AVAILABILITY_ZONE var = env_string var ''AVAILABILITY_ZONE'' ''a''"

text \<open>The default is a fresh UUID, drawn by a library: the parameter \<open>uuid\<close>.\<close>

definition PROXY_GUID :: "environment \<Rightarrow> string \<Rightarrow> string" where
  "PROXY_GUID var uuid = env_string var ''PROXY_GUID'' uuid"

definition HEARTBIT_DELAY :: "environment \<Rightarrow> u64" where
  "HEARTBIT_DELAY var = env_word var ''HEARTBIT_DELAY'' 10000"

definition UDP_CHANNEL_SIZE :: "environment \<Rightarrow> usize" where
  "UDP_CHANNEL_SIZE var = env_word var ''UDP_CHANNEL_SIZE'' 10"

definition GRACEFULLL_SHUTDOWN_DELAY :: "environment \<Rightarrow> u32" where
  "GRACEFULLL_SHUTDOWN_DELAY var = env_word var ''GRACEFULLL_SHUTDOWN_DELAY'' 10"

definition MAX_REGISTRATION_ATTEMPTS :: "environment \<Rightarrow> u16" where
  "MAX_REGISTRATION_ATTEMPTS var = env_word var ''MAX_REGISTRATION_ATTEMPTS'' 10000"

definition METRICS_EXPOSE_PATH :: "environment \<Rightarrow> string" where
  "METRICS_EXPOSE_PATH var = env_string var ''METRICS_EXPOSE_PATH'' ''/actuator/prometheus''"

definition ALLOCATE_PATH :: "environment \<Rightarrow> string" where
  "ALLOCATE_PATH var = env_string var ''ALLOCATE_PATH'' ''/api/v1/proxy-ports''"

definition DELETE_PATH :: "environment \<Rightarrow> string" where
  "DELETE_PATH var = env_string var ''DELETE_PATH'' ''/api/v1/proxy-ports/{port}/{session_id}''"

definition UDP_POOL_SIZE :: "environment \<Rightarrow> usize" where
  "UDP_POOL_SIZE var = env_word var ''UDP_POOL_SIZE'' 0"

definition UDP_POOL_BASE_PORT :: "environment \<Rightarrow> u16" where
  "UDP_POOL_BASE_PORT var = env_word var ''UDP_POOL_BASE_PORT'' 0"

definition STATUS_PATH :: "environment \<Rightarrow> string" where
  "STATUS_PATH var = env_string var ''STATUS_PATH'' ''/api/v1/status''"

section \<open>Reading settings back\<close>

lemma env_word_printed: "var name = Some (dec_string (unat n)) \<Longrightarrow> env_word var name d = n"
  by (simp add: env_word_def parse_word_dec_string)

lemma env_word_garbage:
  "var name = Some s \<Longrightarrow> parse_word s = (Inl e :: ParseIntError + 'a::len word) \<Longrightarrow> env_word var name d = (d :: 'a word)"
  by (simp add: env_word_def)

text \<open>
  The pool's configuration reads back: with the two variables set to the printed size and base
  port, the manager is started with exactly these numbers; if they are absent, with per-session
  ports.
\<close>

lemma pool_settings_read_back:
  "UDP_POOL_SIZE [''UDP_POOL_SIZE'' \<mapsto> dec_string (unat n), ''UDP_POOL_BASE_PORT'' \<mapsto> dec_string (unat base)] = n \<and>
   UDP_POOL_BASE_PORT [''UDP_POOL_SIZE'' \<mapsto> dec_string (unat n), ''UDP_POOL_BASE_PORT'' \<mapsto> dec_string (unat base)] = base \<and>
   UDP_POOL_SIZE Map.empty = 0 \<and> UDP_POOL_BASE_PORT Map.empty = 0"
  by (simp add: UDP_POOL_SIZE_def UDP_POOL_BASE_PORT_def env_word_def parse_word_dec_string)

text \<open>A value that exceeds the width of its setting is not cut: the default is used.\<close>

lemma port_out_of_range: "SERVICE_PORT [''SERVICE_PORT'' \<mapsto> ''65536''] = 3333"
  by (simp add: SERVICE_PORT_def env_word_def parse_word_def parse_uint_def to_digit_def)

end
