(* ===== verification/Allocator.thy ===== *)
theory Allocator
  imports Manager_System Config
begin

text \<open>
  The HTTP interface, \<^verbatim>\<open>src/manager/endpoint.rs\<close>: the handlers behind the routes, the translation
  of middleware errors and the request metrics.  Each handler holds the manager's write lock, so
  the requests are a sequence of calls.  Path matching and JSON belong to libraries; a handler
  starts from the decoded request.  What the middleware does with a request is an argument.
\<close>

section \<open>Responses\<close>

type_synonym status_code = u16

definition OK :: status_code where "OK = 200"
definition BAD_REQUEST :: status_code where "BAD_REQUEST = 400"
definition NOT_ACCEPTABLE :: status_code where "NOT_ACCEPTABLE = 406"
definition REQUEST_TIMEOUT :: status_code where "REQUEST_TIMEOUT = 408"
definition INTERNAL_SERVER_ERROR :: status_code where "INTERNAL_SERVER_ERROR = 500"
definition SERVICE_UNAVAILABLE :: status_code where "SERVICE_UNAVAILABLE = 503"

record Response =
  re_status :: status_code
  re_body :: "AllocateResponse option"

definition status_response :: "status_code \<Rightarrow> Response" where
  "status_response st = \<lparr>re_status = st, re_body = None\<rparr>"

section \<open>The handlers\<close>

definition allocate_proxy :: "Env \<Rightarrow> ProxyManager \<Rightarrow> AllocateRequest \<Rightarrow> alloc_call_io
    \<Rightarrow> (Response \<times> ProxyManager \<times> mgr_effect list) exec" where
  "allocate_proxy env pm body io =
     exec_bind (create_proxy env pm body io) (\<lambda>(r, pm', effs).
       Ret (case r of
              Inr res \<Rightarrow> (\<lparr>re_status = OK, re_body = Some res\<rparr>, pm', effs)
            | Inl err \<Rightarrow> (status_response NOT_ACCEPTABLE, pm', effs)))"

text \<open>The calls one deletion may make: for UDP, and for TCP when there was no UDP port to delete.\<close>

definition delete_proxy :: "Env \<Rightarrow> ProxyManager \<Rightarrow> u16 \<Rightarrow> string \<Rightarrow> call_io \<Rightarrow> call_io
    \<Rightarrow> Response \<times> ProxyManager \<times> mgr_effect list" where
  "delete_proxy env pm p session udp_io tcp_io =
     (case delete_udp_proxy env pm p session udp_io of
        (Inr u, pm1, effs1) \<Rightarrow> (status_response OK, pm1, effs1)
      | (Inl e, pm1, effs1) \<Rightarrow>
          (case delete_tcp_proxy env pm1 p session tcp_io of
             (Inr u, pm2, effs2) \<Rightarrow> (status_response OK, pm2, effs1 @ effs2)
           | (Inl e, pm2, effs2) \<Rightarrow> (status_response BAD_REQUEST, pm2, effs1 @ effs2)))"

definition status_proxy :: Response where
  "status_proxy = status_response OK"

datatype BoxError = Elapsed | Overloaded | OtherError string

definition handle_error :: "BoxError \<Rightarrow> status_code \<times> string" where
  "handle_error error =
     (case error of
        Elapsed \<Rightarrow> (REQUEST_TIMEOUT, ''request timed out'')
      | Overloaded \<Rightarrow> (SERVICE_UNAVAILABLE, ''service is overloaded, try again later'')
      | OtherError msg \<Rightarrow> (INTERNAL_SERVER_ERROR, ''Unhandled internal error: '' @ msg))"

section \<open>Request metrics\<close>

text \<open>\<open>str::contains\<close>\<close>

fun str_contains :: "string \<Rightarrow> string \<Rightarrow> bool" where
  "str_contains pat [] \<longleftrightarrow> pat = []"
| "str_contains pat (c # cs) \<longleftrightarrow> take (length pat) (c # cs) = pat \<or> str_contains pat cs"

text \<open>
  \<open>http_metrics\<close>: the labels recorded for a request, \<open>None\<close> for a request of the metrics themselves.
  \<open>matched\<close> is the matched route, if any.
\<close>

definition http_metrics :: "environment \<Rightarrow> string option \<Rightarrow> string \<Rightarrow> string \<Rightarrow> status_code
    \<Rightarrow> (string \<times> string) list option" where
  "http_metrics var matched uri_path meth status =
     (let path = (case matched of Some m \<Rightarrow> m | None \<Rightarrow> uri_path) in
      if str_contains (METRICS_EXPOSE_PATH var) path then None
      else Some [(''method'', meth), (''path'', path), (''status'', dec_string (unat status))])"

section \<open>The service\<close>

text \<open>
  \<open>AllocatorService::new\<close> puts three routes behind a stack of layers: the request metrics
  outermost, then the translation of errors, load shedding over the concurrency limit, and the
  timeout.  A request that was routed and decoded is an \<open>http_call\<close>, with the results of the
  calls its handler makes.  If its path parameters or its JSON cannot be decoded, the library
  answers with a status of its own and the handler is not called.
\<close>

datatype http_call =
    AllocateCall AllocateRequest alloc_call_io
  | DeleteCall u16 string call_io call_io
  | StatusCall
  | RejectedAllocate status_code
  | RejectedDelete status_code

text \<open>The method and path of the three routes.\<close>

fun route_of :: "environment \<Rightarrow> http_call \<Rightarrow> string \<times> string" where
  "route_of var (AllocateCall request io) = (''POST'', ALLOCATE_PATH var)"
| "route_of var (DeleteCall p session udp_io tcp_io) = (''DELETE'', DELETE_PATH var)"
| "route_of var StatusCall = (''GET'', STATUS_PATH var)"
| "route_of var (RejectedAllocate st) = (''POST'', ALLOCATE_PATH var)"
| "route_of var (RejectedDelete st) = (''DELETE'', DELETE_PATH var)"

text \<open>
  What the layers do with a request is up to them: it is shed, it completes in time, or it times out
  at an \<open>await\<close> of its handler, for the lock of the manager (or before, for its body) or for one of
  its calls.
\<close>

datatype cut_point = AtLock | InCreate await_point bool | InDeleteUdp bool | InDeleteTcp bool

datatype fate = Shed | Completes | TimesOut cut_point

text \<open>The manager after a request that timed out; \<open>None\<close> if its handler does not come to that point.\<close>

fun handler_cut :: "Env \<Rightarrow> ProxyManager \<Rightarrow> http_call \<Rightarrow> cut_point \<Rightarrow> (ProxyManager \<times> mgr_effect list) option" where
  "handler_cut env pm (AllocateCall request io) AtLock = Some (pm, [])"
| "handler_cut env pm (AllocateCall request io) (InCreate pt sent) = create_proxy_cut env pm request io pt sent"
| "handler_cut env pm (DeleteCall p session udp_io tcp_io) AtLock = Some (pm, [])"
| "handler_cut env pm (DeleteCall p session udp_io tcp_io) (InDeleteUdp sent) =
     delete_udp_proxy_cut env pm p session udp_io sent"
| "handler_cut env pm (DeleteCall p session udp_io tcp_io) (InDeleteTcp sent) =
     (case delete_udp_proxy env pm p session udp_io of
        (Inl e, pm1, effs1) \<Rightarrow>
          map_option (apsnd ((@) effs1)) (delete_tcp_proxy_cut env pm1 p session tcp_io sent)
      | _ \<Rightarrow> None)"
| "handler_cut env pm call pt = None"

fun run_handler :: "Env \<Rightarrow> ProxyManager \<Rightarrow> http_call \<Rightarrow> (Response \<times> ProxyManager \<times> mgr_effect list) exec" where
  "run_handler env pm (AllocateCall request io) = allocate_proxy env pm request io"
| "run_handler env pm (DeleteCall p session udp_io tcp_io) = Ret (delete_proxy env pm p session udp_io tcp_io)"
| "run_handler env pm StatusCall = Ret (status_proxy, pm, [])"
| "run_handler env pm (RejectedAllocate st) = Ret (status_response st, pm, [])"
| "run_handler env pm (RejectedDelete st) = Ret (status_response st, pm, [])"

definition error_response :: "BoxError \<Rightarrow> Response" where
  "error_response e = status_response (fst (handle_error e))"

definition layered :: "Env \<Rightarrow> ProxyManager \<Rightarrow> http_call \<Rightarrow> fate
    \<Rightarrow> (Response \<times> ProxyManager \<times> mgr_effect list) exec option" where
  "layered env pm call f =
     (case f of
        Shed \<Rightarrow> Some (Ret (error_response Overloaded, pm, []))
      | Completes \<Rightarrow> Some (run_handler env pm call)
      | TimesOut pt \<Rightarrow>
          map_option (\<lambda>(pm', effs). Ret (error_response Elapsed, pm', effs)) (handler_cut env pm call pt))"

text \<open>The answer of the service with the labels the request is counted under.\<close>

definition AllocatorService_call :: "environment \<Rightarrow> Env \<Rightarrow> ProxyManager \<Rightarrow> http_call \<Rightarrow> fate
    \<Rightarrow> (Response \<times> (string \<times> string) list option \<times> ProxyManager \<times> mgr_effect list) exec option" where
  "AllocatorService_call var env pm call f =
     map_option (\<lambda>r. exec_bind r (\<lambda>(resp, pm', effs).
         Ret (resp, http_metrics var (Some (snd (route_of var call))) [] (fst (route_of var call)) (re_status resp),
              pm', effs)))
       (layered env pm call f)"

text \<open>
  \<open>start\<close>: listen on the port, on all interfaces, then serve until an error.  What comes of listening
  and serving depends on the address.
\<close>

datatype service_io = ListenErr err | Serving | ServeEnded "unit result"

definition listen_addr :: "u16 \<Rightarrow> string" where
  "listen_addr p = ''0.0.0.0:'' @ dec_string (unat p)"

definition service_start :: "(string \<Rightarrow> service_io) \<Rightarrow> u16 \<Rightarrow> unit result poll" where
  "service_start io p =
     (case io (listen_addr p) of
        ListenErr e \<Rightarrow> Ready (Inl e)
      | Serving \<Rightarrow> Pending
      | ServeEnded (Inr u) \<Rightarrow> Ready (Inr ())
      | ServeEnded (Inl e) \<Rightarrow> Ready (Inl e))"

section \<open>Deletion\<close>

definition udp_listed :: "ProxyManager \<Rightarrow> u16 \<Rightarrow> string \<Rightarrow> bool" where
  "udp_listed pm p session \<longleftrightarrow> Session_of p session |\<in>| fmdom (pm_udp_endpoints pm)"

definition tcp_listed :: "ProxyManager \<Rightarrow> u16 \<Rightarrow> string \<Rightarrow> bool" where
  "tcp_listed pm p session \<longleftrightarrow> Session_of p session |\<in>| fmdom (pm_tcp_endpoints pm)"

lemma delete_udp_unlisted:
  "\<not> udp_listed pm p session \<Longrightarrow> delete_udp_proxy env pm p session io = (Inl ''No such endpoint'', pm, [])"
  by (auto simp: udp_listed_def delete_udp_proxy_def delete_pooled_udp_proxy_def fmdom_notD)

lemma delete_tcp_unlisted:
  "\<not> tcp_listed pm p session \<Longrightarrow> delete_tcp_proxy env pm p session io = (Inl ''No such endpoint'', pm, [])"
  by (auto simp: tcp_listed_def delete_tcp_proxy_def fmdom_notD)

lemma rpc_not_SendFailed: "ci_net io = Delivered \<Longrightarrow> fst (rpc env task msg io) \<noteq> SendFailed"
  by (auto simp: rpc_def split: prod.splits option.splits)

lemma delete_tcp_listed:
  assumes "tcp_listed pm p session" "ci_net io = Delivered"
  shows "fst (delete_tcp_proxy env pm p session io) = Inr ()"
  using assms(1) rpc_not_SendFailed [OF assms(2)]
  by (auto simp: tcp_listed_def delete_tcp_proxy_def fmlookup_dom_iff split: prod.splits) (metis fst_conv)

lemma delete_udp_listed:
  assumes wf: "manager_wf pm" and "udp_listed pm p session" "ci_net io = Delivered"
  shows "fst (delete_udp_proxy env pm p session io) = Inr ()"
proof -
  obtain ep where ep: "fmlookup (pm_udp_endpoints pm) (Session_of p session) = Some ep"
    using assms(2) by (auto simp: udp_listed_def fmlookup_dom_iff)
  show ?thesis
  proof (cases "pm_udp_mode pm = Pooled")
    case True
    with wf ep have "session_live (pm_udp_pool pm) (Session_of p session)"
      by (simp add: manager_wf_def)
    then obtain i where i: "find_pooled p (pm_udp_pool pm) = Some i"
      using find_pooled_live by (fastforce simp: Session_of_def)
    obtain h t where ht: "pm_udp_pool pm ! i = (h, t)" by fastforce
    then have "pooled_wf t"
      using wf find_pooled_Some [OF i] by (metis (mono_tags, lifting) case_prodD list_all_length manager_wf_def)
    then have "\<exists>found t' effs. handler_remove_session t session (ci_rt io) Delivered = (Inr found, t', effs)"
      using remove_session_task by (metis prod_cases3)
    with True ep i ht assms(3) show ?thesis
      by (auto simp: delete_udp_proxy_def delete_pooled_udp_proxy_def Let_def)
  next
    case False
    with ep rpc_not_SendFailed [OF assms(3)] show ?thesis
      by (auto simp: delete_udp_proxy_def split: prod.splits) (metis fst_conv)
  qed
qed

lemma delete_proxy_listed:
  assumes "manager_wf pm" "ci_net udp_io = Delivered" "ci_net tcp_io = Delivered"
    and "udp_listed pm p session \<or> tcp_listed pm p session"
  shows "re_status (fst (delete_proxy env pm p session udp_io tcp_io)) = OK"
proof (cases "udp_listed pm p session")
  case True
  then obtain pm1 effs1 where "delete_udp_proxy env pm p session udp_io = (Inr (), pm1, effs1)"
    using delete_udp_listed [OF assms(1) True assms(2)] by (metis prod.collapse)
  then show ?thesis by (simp add: delete_proxy_def status_response_def)
next
  case False
  with assms(4) have "tcp_listed pm p session" by simp
  then obtain pm1 effs1 where "delete_tcp_proxy env pm p session tcp_io = (Inr (), pm1, effs1)"
    using delete_tcp_listed [OF _ assms(3)] by (metis prod.collapse)
  with delete_udp_unlisted [OF False] show ?thesis by (simp add: delete_proxy_def status_response_def)
qed

text \<open>
  C20. Deleting over HTTP: as long as the tasks answer, a port and session that are listed for UDP
  or TCP are answered with 200, and any other with 400, in which case nothing has changed.
\<close>

theorem delete_proxy_status:
  assumes "manager_reachable env pm" and "ci_net udp_io = Delivered" and "ci_net tcp_io = Delivered"
  shows "if udp_listed pm p session \<or> tcp_listed pm p session
    then re_status (fst (delete_proxy env pm p session udp_io tcp_io)) = OK
    else delete_proxy env pm p session udp_io tcp_io = (status_response BAD_REQUEST, pm, [])"
  using delete_proxy_listed [OF manager_reachable_wf [OF assms(1)] assms(2,3)]
  by (auto simp: delete_proxy_def delete_udp_unlisted delete_tcp_unlisted)

lemma allocate_proxy_ok:
  assumes "allocate_proxy env pm request io = Ret (resp, pm', effs)" "re_body resp = Some res"
  shows "create_proxy env pm request io = Ret (Inr res, pm', effs)" "re_status resp = OK"
proof -
  obtain r where r: "create_proxy env pm request io = Ret (r, pm', effs)"
    "resp = (case r of Inr res \<Rightarrow> \<lparr>re_status = OK, re_body = Some res\<rparr> | Inl err \<Rightarrow> status_response NOT_ACCEPTABLE)"
    using assms(1) unfolding allocate_proxy_def exec_bind_Ret_iff by (fastforce split: sum.splits)
  then show "create_proxy env pm request io = Ret (Inr res, pm', effs)" "re_status resp = OK"
    using assms(2) by (auto simp: status_response_def split: sum.splits)
qed

text \<open>
  What a delivered deletion does: the session is off the table and the socket of a pooled port, or
  the endpoint is no longer registered with the manager's task, and its task was aborted if it was
  registered when the message was taken.
\<close>

lemma delete_udp_effective:
  assumes "manager_wf pm" "distinct (pooled_udp_ports pm)" "ci_net io = Delivered"
    and listed: "fmlookup (pm_udp_endpoints pm) (Session_of p session) = Some ep"
  shows "\<exists>pm' effs. delete_udp_proxy env pm p session io = (Inr (), pm', effs) \<and>
    (case pm_udp_mode pm of
       Pooled \<Rightarrow> \<not> udp_listed pm' p session \<and> \<not> session_live (pm_udp_pool pm') (Session_of p session)
     | PerSession \<Rightarrow> fmlookup (mt_udp_proxy (pm_tx pm')) ep = None \<and>
         (\<forall>h. fmlookup (mt_udp_proxy (fst (manager_run env (pm_tx pm) (ci_ahead io)))) ep = Some h \<longrightarrow>
           OfUdp (AbortEndpoint (eh_handle h)) \<in> set effs))"
proof (cases "pm_udp_mode pm")
  case Pooled
  with delete_pooled_gone [OF assms(1) _ assms(2) listed assms(3), of env] show ?thesis
    by (auto simp: udp_listed_def fmlookup_dom_iff)
next
  case PerSession
  obtain task1 effs1 where "manager_run env (pm_tx pm) (ci_ahead io) = (task1, effs1)" by fastforce
  with PerSession listed assms(3) show ?thesis
    by (auto simp: delete_udp_proxy_def rpc_def delete_udp_proxy_impl_def ProxyEndpointHandler_kill_def
        split: option.splits)
qed

lemma delete_tcp_effective:
  assumes "ci_net io = Delivered" and listed: "fmlookup (pm_tcp_endpoints pm) (Session_of p session) = Some ep"
  shows "\<exists>pm' effs. delete_tcp_proxy env pm p session io = (Inr (), pm', effs) \<and>
    fmlookup (mt_tcp_proxy (pm_tx pm')) ep = None \<and>
    (\<forall>h. fmlookup (mt_tcp_proxy (fst (manager_run env (pm_tx pm) (ci_ahead io)))) ep = Some h \<longrightarrow>
      OfTcp (AbortTcpTasks {|th_endpoint_handle h|}) \<in> set effs)"
proof -
  obtain task1 effs1 where "manager_run env (pm_tx pm) (ci_ahead io) = (task1, effs1)" by fastforce
  with listed assms(1) show ?thesis
    by (auto simp: delete_tcp_proxy_def rpc_def delete_tcp_proxy_impl_def ProxyTcpEndpointHandler_kill_def
        split: option.splits)
qed

text \<open>
  C19. Allocation and deletion over HTTP meet: after an allocation answered with 200, deleting any
  port of the answer (a TCP port of 0 stands for none) under the request's session is answered
  with 200 while the tasks answer, and one proxy is gone then.  If the port is a UDP port of the
  session, which includes the answered one, that is the UDP proxy: a pooled session is neither listed
  nor served on the port any more, a per-session endpoint is not registered any more and was aborted.
  Otherwise it is the TCP proxy, likewise.  (A TCP port with the number of a UDP port of the session
  is therefore shadowed by it.  The pool's ports are distinct.)
\<close>

theorem allocate_then_delete:
  assumes "manager_reachable env pm" and "distinct (pooled_udp_ports pm)"
    and "allocate_proxy env pm request io = Ret (resp, pm', effs)" and "re_body resp = Some res"
    and "p = rs_proxy_udp_port res \<or> p \<noteq> 0 \<and> p \<in> {rs_proxy_tcp_port res, rs_proxy_ssl_tcp_port res}"
    and "ci_net udp_io = Delivered" and "ci_net tcp_io = Delivered"
  shows "re_status resp = OK \<and> udp_listed pm' (rs_proxy_udp_port res) (rq_session_id request) \<and>
    (\<exists>pm'' effs'. delete_proxy env pm' p (rq_session_id request) udp_io tcp_io = (status_response OK, pm'', effs') \<and>
      (case fmlookup (pm_udp_endpoints pm') (Session_of p (rq_session_id request)) of
         Some ep \<Rightarrow>
           (case pm_udp_mode pm of
              Pooled \<Rightarrow> \<not> udp_listed pm'' p (rq_session_id request) \<and>
                \<not> session_live (pm_udp_pool pm'') (Session_of p (rq_session_id request))
            | PerSession \<Rightarrow> fmlookup (mt_udp_proxy (pm_tx pm'')) ep = None \<and>
                (\<forall>h. fmlookup (mt_udp_proxy (fst (manager_run env (pm_tx pm') (ci_ahead udp_io)))) ep = Some h \<longrightarrow>
                  OfUdp (AbortEndpoint (eh_handle h)) \<in> set effs'))
       | None \<Rightarrow>
           (\<exists>ep. fmlookup (pm_tcp_endpoints pm') (Session_of p (rq_session_id request)) = Some ep \<and>
              fmlookup (mt_tcp_proxy (pm_tx pm'')) ep = None \<and>
              (\<forall>h. fmlookup (mt_tcp_proxy (fst (manager_run env (pm_tx pm') (ci_ahead tcp_io)))) ep = Some h \<longrightarrow>
                OfTcp (AbortTcpTasks {|th_endpoint_handle h|}) \<in> set effs'))))"
proof -
  let ?sid = "rq_session_id request"
  note create = allocate_proxy_ok(1) [OF assms(3,4)]
  note kept = create_proxy_wf [OF manager_reachable_wf [OF assms(1)] create]
  then have wf: "manager_wf pm'" "distinct (pooled_udp_ports pm')" "pm_udp_mode pm' = pm_udp_mode pm"
    using assms(2) by simp_all
  have udp: "udp_listed pm' (rs_proxy_udp_port res) ?sid"
    and either: "udp_listed pm' p ?sid \<or> tcp_listed pm' p ?sid"
    using create_proxy_records [OF create] assms(5)
    by (auto simp: udp_listed_def tcp_listed_def fmdomI split: if_splits)
  note ok = allocate_proxy_ok(2) [OF assms(3,4)]
  show ?thesis
  proof (cases "fmlookup (pm_udp_endpoints pm') (Session_of p ?sid)")
    case (Some ep)
    from delete_udp_effective [OF wf(1,2) assms(6) Some, of env] Some ok udp show ?thesis
      by (auto simp: delete_proxy_def wf(3))
  next
    case None
    then have unlisted: "\<not> udp_listed pm' p ?sid" by (auto simp: udp_listed_def fmlookup_dom_iff)
    with either obtain ep where "fmlookup (pm_tcp_endpoints pm') (Session_of p ?sid) = Some ep"
      by (auto simp: tcp_listed_def fmlookup_dom_iff)
    from delete_tcp_effective [OF assms(7) this, of env] this None ok udp show ?thesis
      by (auto simp: delete_proxy_def delete_udp_unlisted [OF unlisted])
  qed
qed

text \<open>
  In per-session mode a TCP port that has the number of a UDP port of the same session cannot be
  deleted: the UDP entry is never removed and always answers first.
\<close>

lemma per_session_tcp_port_shadowed:
  assumes "pm_udp_mode pm = PerSession" and "udp_listed pm p session" and "ci_net udp_io = Delivered"
    and "ci_ahead udp_io = []"
  shows "\<exists>pm' effs. delete_proxy env pm p session udp_io tcp_io = (status_response OK, pm', effs) \<and>
    mt_tcp_proxy (pm_tx pm') = mt_tcp_proxy (pm_tx pm) \<and> udp_listed pm' p session"
proof -
  obtain ep where ep: "fmlookup (pm_udp_endpoints pm) (Session_of p session) = Some ep"
    using assms(2) by (auto simp: udp_listed_def fmlookup_dom_iff)
  obtain r task effs where rpc: "rpc env (pm_tx pm) (DeleteUdpProxy (ci_rt udp_io) ep) udp_io = (r, task, effs)"
    by (metis prod_cases3)
  then have "r \<noteq> SendFailed" using rpc_not_SendFailed [OF assms(3)] by (metis fst_conv)
  moreover have "mt_tcp_proxy task = mt_tcp_proxy (pm_tx pm)"
    using rpc assms(3,4) by (auto simp: rpc_def split: prod.splits option.splits)
  ultimately show ?thesis
    using assms(1,2) ep rpc by (auto simp: delete_proxy_def delete_udp_proxy_def udp_listed_def)
qed

section \<open>The service as a whole\<close>

text \<open>The handler panics exactly on an allocation with a malformed UDP port, before it changes anything.\<close>

lemma service_panics_iff:
  assumes "manager_reachable env pm"
  shows "AllocatorService_call var env pm call f = Some Panic \<longleftrightarrow>
    f = Completes \<and> (\<exists>request io. call = AllocateCall request io \<and> create_proxy env pm request io = Panic)"
  by (cases f; cases call)
    (auto simp: AllocatorService_call_def layered_def allocate_proxy_def exec_bind_Panic_iff split: prod.splits)

section \<open>Witnesses\<close>

theorem delete_proxy_status_witness:
  "delete_proxy demo_env demo_pooled 4000 ''nobody'' demo_call demo_call = (status_response BAD_REQUEST, demo_pooled, [])"
proof -
  have unlisted: "\<not> (udp_listed demo_pooled 4000 ''nobody'' \<or> tcp_listed demo_pooled 4000 ''nobody'')"
    by (simp add: udp_listed_def tcp_listed_def ProxyManager_new_def)
  have net: "ci_net demo_call = Delivered" by simp
  show ?thesis
    by (rule delete_proxy_status [OF demo_pooled_reachable net net, of 4000 "''nobody''" demo_env,
          unfolded if_not_P [OF unlisted]])
qed

theorem allocate_then_delete_witness:
  "\<exists>pm effs pm' effs'. allocate_proxy demo_env demo_pooled demo_request demo_acall =
     Ret (\<lparr>re_status = OK, re_body = Some \<lparr>rs_proxy_udp_port = 4000, rs_proxy_tcp_port = 5000, rs_proxy_ssl_tcp_port = 0\<rparr>\<rparr>,
       pm, effs) \<and>
     delete_proxy demo_env pm 4000 ''s'' demo_call demo_call = (status_response OK, pm', effs') \<and>
     \<not> session_live (pm_udp_pool pm') (Session_of 4000 ''s'')"
proof -
  let ?res = "\<lparr>rs_proxy_udp_port = 4000, rs_proxy_tcp_port = 5000, rs_proxy_ssl_tcp_port = 0\<rparr>"
  obtain pm effs where alloc: "allocate_proxy demo_env demo_pooled demo_request demo_acall =
     Ret (\<lparr>re_status = OK, re_body = Some ?res\<rparr>, pm, effs)"
    and listed: "fmlookup (pm_udp_endpoints pm) (Session_of 4000 ''s'') = Some (Endpoint_new 80 ''h'' ''s'')"
    using demo_allocated by (auto simp: allocate_proxy_def)
  have ports: "distinct (pooled_udp_ports demo_pooled)" unfolding demo_ports by simp
  have "re_body \<lparr>re_status = OK, re_body = Some ?res\<rparr> = Some ?res"
    "4000 = rs_proxy_udp_port ?res \<or> 4000 \<noteq> 0 \<and> 4000 \<in> {rs_proxy_tcp_port ?res, rs_proxy_ssl_tcp_port ?res}"
    "ci_net demo_call = Delivered"
    by simp_all
  from allocate_then_delete [OF demo_pooled_reachable ports alloc this(1,2,3,3)] listed alloc show ?thesis
    by auto
qed

end
