(* ===== verification/Session_Tables.thy ===== *)
theory Session_Tables
  imports Allocator
begin

text \<open>
  The manager's table of sessions against the sockets of the pool.  That a listed session is served
  holds whatever happens to the calls (\<open>Manager_System\<close>); here is the converse: as long as the
  calls are not cut, the sockets serve nobody who is not listed and could not be deleted.
\<close>

section \<open>Sessions served by a pool\<close>

definition served :: "(PooledUdpEndpointHandler \<times> PooledUdpEndpoint) list \<Rightarrow> Session set" where
  "served pool =
     {Session_of (ph_local_port h) sid | h t sid. (h, t) \<in> set pool \<and> sid |\<in>| fmdom (u_sessions t)}"

lemma servedI:
  "(h, t) \<in> set pool \<Longrightarrow> sid |\<in>| fmdom (u_sessions t) \<Longrightarrow> Session_of (ph_local_port h) sid \<in> served pool"
  by (auto simp: served_def)

lemma Session_of_inject [simp]: "Session_of p sid = Session_of q sid' \<longleftrightarrow> p = q \<and> sid = sid'"
  by (simp add: Session_of_def)

lemma served_live: "session_live pool ses \<longleftrightarrow> ses \<in> served pool"
  by (cases ses) (auto simp: session_live_def served_def Session_of_def)

lemma served_update:
  assumes "i < length pool" "pool ! i = (h, t)"
  shows "served (pool[i := (h, t')]) \<subseteq>
    served pool \<union> Session_of (ph_local_port h) ` (fset (fmdom (u_sessions t')) - fset (fmdom (u_sessions t)))"
proof
  fix ses
  assume "ses \<in> served (pool[i := (h, t')])"
  then obtain g u sid where ses: "ses = Session_of (ph_local_port g) sid" "sid |\<in>| fmdom (u_sessions u)"
    and "(g, u) \<in> set (pool[i := (h, t')])"
    by (auto simp: served_def)
  then consider (old) "(g, u) \<in> set pool" | (new) "g = h" "u = t'"
    using set_update_subset_insert [of pool i "(h, t')"] by blast
  then show "ses \<in> served pool \<union>
      Session_of (ph_local_port h) ` (fset (fmdom (u_sessions t')) - fset (fmdom (u_sessions t)))"
  proof cases
    case old
    with ses show ?thesis by (blast intro: servedI)
  next
    case new
    moreover have "(h, t) \<in> set pool" using assms nth_mem by force
    ultimately show ?thesis using ses servedI [of h t pool sid] by blast
  qed
qed

text \<open>With distinct ports, a socket that forgets a session ends it for its port.\<close>

lemma served_forget:
  assumes "distinct (map (\<lambda>(h, t). ph_local_port h) pool)" "i < length pool" "pool ! i = (h, t)"
    and "sid |\<notin>| fmdom (u_sessions t')"
  shows "Session_of (ph_local_port h) sid \<notin> served (pool[i := (h, t')])"
proof
  assume "Session_of (ph_local_port h) sid \<in> served (pool[i := (h, t')])"
  then obtain g u where "(g, u) \<in> set (pool[i := (h, t')])" "ph_local_port g = ph_local_port h"
    "sid |\<in>| fmdom (u_sessions u)"
    by (auto simp: served_def)
  with distinct_port_index [OF assms(1-3)] assms(4) show False by blast
qed

section \<open>The tables are exact\<close>

definition unlisted_unserved :: "ProxyManager \<Rightarrow> bool" where
  "unlisted_unserved pm \<longleftrightarrow>
     distinct (pooled_udp_ports pm) \<and> manager_wf pm \<and> served (pm_udp_pool pm) \<subseteq> fset (fmdom (pm_udp_endpoints pm))"

text \<open>Only allocations and deletions that return, with the tasks of the pool alive.\<close>

inductive calls_reachable :: "Env \<Rightarrow> ProxyManager \<Rightarrow> bool" for env :: Env where
  calls_start: "fst (with_udp_pool pool_size base ios) = Inr pm \<Longrightarrow> distinct (pooled_udp_ports pm) \<Longrightarrow>
    calls_reachable env pm"
| calls_allocate: "calls_reachable env pm \<Longrightarrow> create_proxy env pm request aio = Ret (r, pm', effs) \<Longrightarrow>
    calls_reachable env pm'"
| calls_delete_udp: "calls_reachable env pm \<Longrightarrow> ci_net io = Delivered \<Longrightarrow>
    delete_udp_proxy env pm p sid io = (r', pm', effs) \<Longrightarrow> calls_reachable env pm'"
| calls_delete_tcp: "calls_reachable env pm \<Longrightarrow> delete_tcp_proxy env pm p sid io = (r', pm', effs) \<Longrightarrow>
    calls_reachable env pm'"
| calls_pool_step: "calls_reachable env pm \<Longrightarrow> i < length (pm_udp_pool pm) \<Longrightarrow> pm_udp_pool pm ! i = (h, t) \<Longrightarrow>
    PooledUdpEndpoint_step tx t e = (t', outs, Continue) \<Longrightarrow> control_of e = [] \<Longrightarrow>
    calls_reachable env (pm\<lparr>pm_udp_pool := (pm_udp_pool pm)[i := (h, t')]\<rparr>)"
| calls_task_step: "calls_reachable env pm \<Longrightarrow> manager_handle env (pm_tx pm) mio msg = (task, effs) \<Longrightarrow>
    calls_reachable env (pm\<lparr>pm_tx := task\<rparr>)"

lemma start_unserved:
  assumes "fst (with_udp_pool pool_size base ios) = Inr pm"
  shows "served (pm_udp_pool pm) = {}"
  using assms
  by (auto simp: with_udp_pool_eq Let_def served_def bound_handle_def PooledUdpEndpoint_new_def ProxyManager_new_def
      split: if_splits)

lemma create_pooled_served:
  assumes "create_pooled_udp_proxy env pm ep ufrag io = Ret (r, pm', effs)"
    and "served (pm_udp_pool pm) \<subseteq> fset (fmdom (pm_udp_endpoints pm))"
  shows "served (pm_udp_pool pm') \<subseteq> fset (fmdom (pm_udp_endpoints pm'))"
  using assms(1)
proof (cases rule: create_pooled_cases)
  case refused
  with assms(2) show ?thesis by simp
next
  case (closed i h t t' u target effs' e)
  then have "t' = t"
    by (auto simp: handler_add_route_def simp del: on_control.simps split: rpc_io.splits prod.splits)
  with closed(3) have "(pm_udp_pool pm)[i := (h, t')] = pm_udp_pool pm"
    using list_update_id [of "pm_udp_pool pm" i] by simp
  with assms(2) show ?thesis by (simp add: closed(7))
next
  case (routed i h t t' u target effs')
  then have i: "i < length (pm_udp_pool pm)" by simp
  obtain effs2 where "on_control t (AddRoute (ep_session_id ep) u target (ci_rt io)) = (t', effs2)"
    using routed(7) by (auto simp: handler_add_route_def simp del: on_control.simps split: rpc_io.splits prod.splits)
  from served_update [OF i routed(3), of t'] on_control_AddRoute(1) [OF this] assms(2) show ?thesis
    by (auto simp: routed(9))
qed

lemma create_served:
  assumes wf: "manager_wf pm" and "create_proxy env pm request io = Ret (r, pm', effs)"
    and "served (pm_udp_pool pm) \<subseteq> fset (fmdom (pm_udp_endpoints pm))"
  shows "served (pm_udp_pool pm') \<subseteq> fset (fmdom (pm_udp_endpoints pm'))"
proof -
  have by_mode: "served (pm_udp_pool pm1) \<subseteq> fset (fmdom (pm_udp_endpoints pm1))"
    if "create_udp_by_mode env pm ep ufrag cio = Ret (r1, pm1, effs1)" for ep ufrag cio r1 pm1 effs1
  proof (cases "pm_udp_mode pm")
    case PerSession
    with that wf create_udp_proxy_internal_frame [of env pm ep cio] show ?thesis
      by (simp add: create_udp_by_mode_def manager_wf_def served_def)
  next
    case Pooled
    with that assms(3) create_pooled_served show ?thesis by (simp add: create_udp_by_mode_def)
  qed
  from assms(2) show ?thesis
  proof (cases rule: create_proxy_cases)
    case udp
    then show ?thesis using by_mode by blast
  next
    case tcp
    then show ?thesis using by_mode [OF tcp(3)] create_tcp_frame [OF tcp(4)] by simp
  next
    case ssl
    then show ?thesis using by_mode [OF ssl(3)] create_tcp_frame [OF ssl(4)] create_tcp_frame [OF ssl(5)] by simp
  qed
qed

lemma delete_served:
  assumes ex: "unlisted_unserved pm" and "ci_net io = Delivered"
    and "delete_udp_proxy env pm p sid io = (r, pm', effs)"
  shows "served (pm_udp_pool pm') \<subseteq> fset (fmdom (pm_udp_endpoints pm'))"
proof (cases "pm_udp_mode pm = Pooled")
  case True
  note wf = ex [unfolded unlisted_unserved_def]
  have "delete_pooled_udp_proxy pm p sid io = (r, pm', effs)"
    using assms(3) True by (simp add: delete_udp_proxy_def)
  with wf [THEN conjunct2, THEN conjunct1] True show ?thesis
  proof (cases rule: delete_pooled_cases)
    case unlisted
    with wf show ?thesis by simp
  next
    case (listed i h t r0 t' effs')
    then obtain effs2 where "on_control t (RemoveSession sid (ci_rt io)) = (t', effs2)"
      using assms(2) by (auto simp: handler_remove_session_def simp del: on_control.simps split: prod.splits)
    note ends = on_control_RemoveSession(1) [OF this]
    have "Session_of p sid \<notin> served ((pm_udp_pool pm)[i := (h, t')])"
      using served_forget [OF _ listed(1,2), of sid t'] wf ends by (simp add: listed(3) pooled_udp_ports_def)
    moreover have "served ((pm_udp_pool pm)[i := (h, t')]) \<subseteq> served (pm_udp_pool pm)"
      using served_update [OF listed(1,2), of t'] ends by auto
    ultimately show ?thesis
      using wf by (auto simp: listed(5))
  qed
next
  case False
  with assms(3) ex show ?thesis
    by (auto simp: delete_udp_proxy_def unlisted_unserved_def split: option.splits prod.splits)
qed

lemma calls_reachable_exact: "calls_reachable env pm \<Longrightarrow> unlisted_unserved pm"
proof (induction rule: calls_reachable.induct)
  case calls_start
  then show ?case using with_udp_pool_wf start_unserved by (simp add: unlisted_unserved_def)
next
  case calls_allocate
  then show ?case using create_proxy_wf create_served by (metis unlisted_unserved_def)
next
  case calls_delete_udp
  then show ?case using delete_udp_wf delete_served by (metis unlisted_unserved_def)
next
  case (calls_delete_tcp pm p sid io r' pm' effs)
  then have "pm_udp_pool pm' = pm_udp_pool pm \<and> pm_udp_endpoints pm' = pm_udp_endpoints pm"
    by (auto simp: delete_tcp_proxy_def split: option.splits prod.splits)
  with calls_delete_tcp show ?case
    using delete_tcp_wf by (simp only: unlisted_unserved_def) metis
next
  case (calls_pool_step pm i h t tx e t' outs)
  have "u_sessions t' = u_sessions t"
    using calls_pool_step(4) by (cases rule: pooled_step_cases) (use calls_pool_step(5) in \<open>auto dest: on_datagram_table\<close>)
  with calls_pool_step served_update [OF calls_pool_step(2,3), of t'] show ?case
    using pool_step_wf [of pm i h t tx e t' outs Continue] pool_update_ports [OF calls_pool_step(2,3), of t']
    by (auto simp: unlisted_unserved_def pooled_udp_ports_def)
next
  case (calls_task_step pm mio msg task effs)
  then show ?case by (simp add: unlisted_unserved_def manager_wf_def pooled_udp_ports_def)
qed

lemma same_port:
  assumes "distinct (pooled_udp_ports pm)" "(h, t) \<in> set (pm_udp_pool pm)" "(g, u) \<in> set (pm_udp_pool pm)"
    and "ph_local_port g = ph_local_port h"
  shows "g = h \<and> u = t"
  using assms unfolding pooled_udp_ports_def distinct_map inj_on_def by fastforce

text \<open>
  C9. The pool serves listed sessions and nobody else: after any allocations and deletions that were
  not cut, successful or not, a pooled socket knows exactly the sessions the manager lists for its
  port; every route it has belongs to one of them, and so does every client it relays for.  So
  everything that is forwarded can be ended by a deletion.
\<close>

theorem served_sessions_listed:
  assumes "calls_reachable env pm" and "pm_udp_mode pm = Pooled" and "(h, t) \<in> set (pm_udp_pool pm)"
  shows "(\<forall>sid. sid |\<in>| fmdom (u_sessions t) \<longleftrightarrow>
      Session_of (ph_local_port h) sid |\<in>| fmdom (pm_udp_endpoints pm)) \<and>
    (\<forall>u target. fmlookup (u_routes t) u = Some target \<longrightarrow>
      (\<exists>sid ep. fmlookup (u_sessions t) sid = Some u \<and>
        fmlookup (pm_udp_endpoints pm) (Session_of (ph_local_port h) sid) = Some ep)) \<and>
    (\<forall>a c. fmlookup (u_clients t) a = Some c \<longrightarrow>
      (\<exists>sid ep. fmlookup (u_sessions t) sid = Some (p_ufrag c) \<and>
        fmlookup (pm_udp_endpoints pm) (Session_of (ph_local_port h) sid) = Some ep))"
proof -
  have ex: "distinct (pooled_udp_ports pm)" "manager_wf pm"
    "served (pm_udp_pool pm) \<subseteq> fset (fmdom (pm_udp_endpoints pm))"
    using calls_reachable_exact [OF assms(1)] by (simp_all add: unlisted_unserved_def)
  have wf: "pooled_wf t" using ex(2) assms(3) by (auto simp: manager_wf_def list_all_iff)
  have known: "sid |\<in>| fmdom (u_sessions t) \<longleftrightarrow> Session_of (ph_local_port h) sid |\<in>| fmdom (pm_udp_endpoints pm)" for sid
  proof
    assume "Session_of (ph_local_port h) sid |\<in>| fmdom (pm_udp_endpoints pm)"
    then have "session_live (pm_udp_pool pm) (Session_of (ph_local_port h) sid)"
      using ex(2) assms(2) by (auto simp: manager_wf_def fmlookup_dom_iff)
    then obtain g u where g: "(g, u) \<in> set (pm_udp_pool pm)" "ph_local_port g = ph_local_port h"
      "sid |\<in>| fmdom (u_sessions u)"
      by (auto simp: session_live_def Session_of_def)
    with same_port [OF ex(1) assms(3) g(1,2)] show "sid |\<in>| fmdom (u_sessions t)" by simp
  qed (use ex(3) servedI [OF assms(3)] in auto)
  have "\<exists>sid ep. fmlookup (u_sessions t) sid = Some u \<and>
      fmlookup (pm_udp_endpoints pm) (Session_of (ph_local_port h) sid) = Some ep"
    if "fmlookup (u_routes t) u = Some target" for u target
  proof -
    have "hm_any_value (u_sessions t) u"
      using pooled_wf_dom [OF wf] that by (auto simp: fmlookup_dom_iff)
    with known show ?thesis by (fastforce simp: hm_any_value_iff fmlookup_dom_iff)
  qed
  moreover from this have "\<exists>sid ep. fmlookup (u_sessions t) sid = Some (p_ufrag c) \<and>
      fmlookup (pm_udp_endpoints pm) (Session_of (ph_local_port h) sid) = Some ep"
    if "fmlookup (u_clients t) a = Some c" for a c
    using pooled_wf_client [OF wf that] by (simp add: client_routed_def)
  ultimately show ?thesis using known by blast
qed

theorem served_sessions_listed_witness:
  "\<exists>pm effs h t. create_proxy demo_env demo_pooled demo_request demo_acall =
     Ret (Inr \<lparr>rs_proxy_udp_port = 4000, rs_proxy_tcp_port = 5000, rs_proxy_ssl_tcp_port = 0\<rparr>, pm, effs) \<and>
     (h, t) \<in> set (pm_udp_pool pm) \<and> ph_local_port h = 4000 \<and> ''s'' |\<in>| fmdom (u_sessions t)"
proof -
  obtain pm effs where alloc: "create_proxy demo_env demo_pooled demo_request demo_acall =
      Ret (Inr \<lparr>rs_proxy_udp_port = 4000, rs_proxy_tcp_port = 5000, rs_proxy_ssl_tcp_port = 0\<rparr>, pm, effs)"
    "pm_udp_mode pm = Pooled"
    "fmlookup (pm_udp_endpoints pm) (Session_of 4000 ''s'') = Some (Endpoint_new 80 ''h'' ''s'')"
    using demo_allocated by blast
  have start: "calls_reachable demo_env demo_pooled"
    by (rule calls_start [OF demo_started]) (simp only: demo_ports, simp)
  from reachable_session_routed [OF mgr_allocate [OF demo_pooled_reachable alloc(1)] alloc(2,3)]
  obtain h t where ht: "(h, t) \<in> set (pm_udp_pool pm)" "ph_local_port h = 4000" by blast
  from served_sessions_listed [OF calls_allocate [OF start alloc(1)] alloc(2) ht(1)] alloc(3) ht(2)
  have "''s'' |\<in>| fmdom (u_sessions t)" by (auto simp: fmlookup_dom_iff)
  with alloc(1) ht show ?thesis by blast
qed

section \<open>After the last session of an ufrag\<close>

text \<open>Events after which a client at \<open>a\<close> is still unknown: it shows no ufrag but \<open>u\<close>, and nobody routes \<open>u\<close>.\<close>

fun leaves_out :: "SocketAddr \<Rightarrow> string \<Rightarrow> pooled_event \<Rightarrow> bool" where
  "leaves_out a u (PooledRecv (Inr (d, addr)) known al send) \<longleftrightarrow>
     addr = a \<longrightarrow> (\<forall>v. local_ufrag (recv_buf d) = Ret (Some v) \<longrightarrow> v = u)"
| "leaves_out a u (PooledControl (Some (AddRoute sid v target rt))) \<longleftrightarrow> v \<noteq> u"
| "leaves_out a u _ \<longleftrightarrow> True"

lemma step_leaves_out:
  assumes "pooled_wf s" "fmlookup (u_routes s) u = None" "fmlookup (u_clients s) a = None"
    and "PooledUdpEndpoint_step tx s e = (s', outs, ctl)" "leaves_out a u e"
  shows "pooled_wf s' \<and> fmlookup (u_routes s') u = None \<and> fmlookup (u_clients s') a = None"
proof -
  have wf: "pooled_wf s'" by (rule pooled_step_wf [OF assms(1,4)])
  have routes: "fmlookup (u_routes s') u = None"
    using assms(4)
  proof (cases rule: pooled_step_cases)
    case datagram
    then show ?thesis using on_datagram_table assms(2) by auto
  next
    case (control msg)
    then show ?thesis
      using assms(2,5)
      by (cases msg) (auto simp: on_control_AddRoute(3) on_control_RemoveSession(3) simp del: on_control.simps)
  qed (use assms(2) in auto)
  have "fmlookup (u_clients s') a \<noteq> Some c" for c
  proof
    assume c: "fmlookup (u_clients s') a = Some c"
    with pooled_step_client [OF assms(4) c] assms(3) have "shows_ufrag a (p_ufrag c) e" by simp
    with assms(5) have "p_ufrag c = u"
      by (cases "(a, p_ufrag c, e)" rule: shows_ufrag.cases) auto
    with pooled_wf_client [OF wf c] routes show False by (simp add: client_routed_def)
  qed
  with wf routes show ?thesis by (cases "fmlookup (u_clients s') a") auto
qed

lemma run_leaves_out:
  assumes "pooled_wf s" "fmlookup (u_routes s) u = None" "fmlookup (u_clients s) a = None"
    and "PooledUdpEndpoint_run tx s es = (s', outs, Continue)" "list_all (leaves_out a u) es"
  shows "pooled_wf s' \<and> fmlookup (u_routes s') u = None \<and> fmlookup (u_clients s') a = None"
  using assms
proof (induction es arbitrary: s outs)
  case Nil
  then show ?case by (simp add: PooledUdpEndpoint_run_def)
next
  case (Cons e es)
  then obtain s1 outs1 outs2 where st: "PooledUdpEndpoint_step tx s e = (s1, outs1, Continue)"
    "PooledUdpEndpoint_run tx s1 es = (s', outs2, Continue)"
    by (auto simp: PooledUdpEndpoint_run_def split: prod.splits loop_ctl.splits)
  with step_leaves_out [OF Cons.prems(1-3) st(1)] Cons.prems(5) Cons.IH [of s1] show ?case by simp
qed

text \<open>The deletion of a session a socket serves is a message to this socket.\<close>

lemma delete_served_session:
  assumes "calls_reachable env pm" and mode: "pm_udp_mode pm = Pooled" and ht: "(h, t) \<in> set (pm_udp_pool pm)"
    and "sid |\<in>| fmdom (u_sessions t)" and "ci_net io = Delivered"
  shows "\<exists>pm' t' effs. delete_udp_proxy env pm (ph_local_port h) sid io = (Inr (), pm', map OfUdp effs) \<and>
    on_control t (RemoveSession sid (ci_rt io)) = (t', effs) \<and> (h, t') \<in> set (pm_udp_pool pm')"
proof -
  have ex: "distinct (pooled_udp_ports pm)" "manager_wf pm"
    "served (pm_udp_pool pm) \<subseteq> fset (fmdom (pm_udp_endpoints pm))"
    using calls_reachable_exact [OF assms(1)] by (simp_all add: unlisted_unserved_def)
  have listed: "Session_of (ph_local_port h) sid |\<in>| fmdom (pm_udp_endpoints pm)"
    using ex(3) servedI [OF ht assms(4)] by auto
  obtain r pm' effs0 where del: "delete_udp_proxy env pm (ph_local_port h) sid io = (r, pm', effs0)"
    by (metis prod_cases3)
  moreover have "r = Inr ()"
    using delete_udp_listed [OF ex(2) _ assms(5), of "ph_local_port h" sid env] listed del by (simp add: udp_listed_def)
  moreover from del mode have "delete_pooled_udp_proxy pm (ph_local_port h) sid io = (r, pm', effs0)"
    by (simp add: delete_udp_proxy_def)
  with ex(2) mode show ?thesis
  proof (cases rule: delete_pooled_cases)
    case unlisted
    with listed show ?thesis by (simp add: fmlookup_dom_iff)
  next
    case (listed i g u r0 u' effs)
    from listed(1,2) have "(g, u) \<in> set (pm_udp_pool pm)" by (metis nth_mem)
    from same_port [OF ex(1) ht this listed(3)] have g: "g = h" "u = t" by simp_all
    have "on_control t (RemoveSession sid (ci_rt io)) = (u', effs)"
      using listed(4) assms(5) g(2)
      by (auto simp: handler_remove_session_def simp del: on_control.simps split: prod.splits)
    moreover have "(h, u') \<in> set (pm_udp_pool pm')"
      using listed(1) g(1) by (simp add: listed(5) set_update_memI)
    ultimately show ?thesis using del \<open>r = Inr ()\<close> listed(6) by blast
  qed
qed

end
