(* ===== verification/Own_Session.thy ===== *)
theory Own_Session
  imports Allocator
begin

text \<open>
  What a request may touch: whatever becomes of it, an HTTP request for one session leaves the table
  entries of every other session, its ufrag on the pooled sockets and its endpoints as they are.  This
  rests on an invariant of the manager's tables: a session is listed with an endpoint of its own.  (The
  route of an ufrag is shared by the sessions that name it, so it is not part of this.)
\<close>

section \<open>The tables list each session with its own endpoint\<close>

definition own_entries :: "(Session, Endpoint) fmap \<Rightarrow> bool" where
  "own_entries m \<longleftrightarrow> (\<forall>ses ep. fmlookup m ses = Some ep \<longrightarrow> ep_session_id ep = s_session_id ses)"

definition own_tables :: "ProxyManager \<Rightarrow> bool" where
  "own_tables pm \<longleftrightarrow> own_entries (pm_udp_endpoints pm) \<and> own_entries (pm_tcp_endpoints pm)"

lemma own_entries_simps [simp]:
  "own_entries fmempty"
  "own_entries m \<Longrightarrow> own_entries (fmdrop k m)"
  "own_entries m \<Longrightarrow> ep_session_id ep = sid \<Longrightarrow> own_entries (fmupd (Session_of p sid) ep m)"
  by (auto simp: own_entries_def Session_of_def)

lemma own_tables_tx [simp]: "own_tables (pm\<lparr>pm_tx := task\<rparr>) \<longleftrightarrow> own_tables pm"
  by (simp add: own_tables_def)

lemma create_by_mode_own:
  assumes "create_udp_by_mode env pm ep ufrag io = Ret (r, pm', effs)" "own_tables pm"
  shows "own_tables pm'"
proof (cases "pm_udp_mode pm")
  case PerSession
  with assms(1) have "create_udp_proxy_internal env pm ep io = (r, pm', effs)" by (simp add: create_udp_by_mode_def)
  from create_udp_proxy_internal_frame [OF this] assms(2) show ?thesis
    by (simp add: own_tables_def split: sum.splits)
next
  case Pooled
  with assms(1) have "create_pooled_udp_proxy env pm ep ufrag io = Ret (r, pm', effs)" by (simp add: create_udp_by_mode_def)
  then show ?thesis by (cases rule: create_pooled_cases) (use assms(2) in \<open>simp_all add: own_tables_def\<close>)
qed

lemma create_tcp_own:
  assumes "create_tcp_if_wanted env pm request port_str io = (r, pm', effs)" "own_tables pm"
  shows "own_tables pm'"
  using assms
  by (auto simp: create_tcp_if_wanted_def create_tcp_proxy_internal_def Let_def own_tables_def
      split: prod.splits sum.splits rpc_result.splits ProxyManagerMsg.splits if_splits)

lemma create_proxy_own:
  assumes "create_proxy env pm request io = Ret (r, pm', effs)" "own_tables pm"
  shows "own_tables pm'"
  using assms(1)
  by (cases rule: create_proxy_cases) (use assms(2) create_by_mode_own create_tcp_own in metis)+

lemma delete_pooled_tables:
  assumes "delete_pooled_udp_proxy pm p sid io = (r, pm', effs)"
  shows "pm_tcp_endpoints pm' = pm_tcp_endpoints pm \<and>
    pm_udp_endpoints pm' \<in> {pm_udp_endpoints pm, fmdrop (Session_of p sid) (pm_udp_endpoints pm)} \<and> pm_tx pm' = pm_tx pm"
  using assms
  by (auto simp: delete_pooled_udp_proxy_def Let_def split: option.splits prod.splits)

lemma delete_own:
  assumes "delete_udp_proxy env pm p sid io = (r, pm', effs) \<or> delete_tcp_proxy env pm p sid io = (r, pm', effs)"
    and "own_tables pm"
  shows "own_tables pm'"
  using assms delete_pooled_tables [of pm p sid io]
  by (auto simp: delete_udp_proxy_def delete_tcp_proxy_def own_tables_def split: if_splits option.splits prod.splits)

text \<open>A call that is cut lists nothing new.\<close>

lemma rpc_cut_own: "rpc_cut env pm msg io sent = (pm', effs) \<Longrightarrow> own_tables pm \<Longrightarrow> own_tables pm'"
  using rpc_cut_frame by fastforce

lemma control_cut_tables:
  "control_cut pm i msg sent = (pm', effs) \<Longrightarrow>
     pm_udp_endpoints pm' = pm_udp_endpoints pm \<and> pm_tcp_endpoints pm' = pm_tcp_endpoints pm \<and> pm_tx pm' = pm_tx pm"
  by (auto simp: control_cut_def simp del: on_control.simps split: if_splits prod.splits)

lemma create_proxy_cut_cases:
  assumes "create_proxy_cut env pm request io pt sent = Some (pm', effs)"
  obtains (udp) ep where "ep_session_id ep = rq_session_id request"
      "create_udp_cut env pm ep (rq_ufrag request) (ac_udp io) sent = Some (pm', effs)"
  | (tcp) ep p1 pm1 effs1 effs2 where "ep_session_id ep = rq_session_id request"
      "create_udp_by_mode env pm ep (rq_ufrag request) (ac_udp io) = Ret (Inr p1, pm1, effs1)"
      "create_tcp_cut env pm1 request (rq_target_tcp_port request) (ac_tcp io) sent = Some (pm', effs2)"
  | (ssl) ep p1 pm1 effs1 p2 pm2 effs2 effs3 where "ep_session_id ep = rq_session_id request"
      "create_udp_by_mode env pm ep (rq_ufrag request) (ac_udp io) = Ret (Inr p1, pm1, effs1)"
      "create_tcp_if_wanted env pm1 request (rq_target_tcp_port request) (ac_tcp io) = (Inr p2, pm2, effs2)"
      "create_tcp_cut env pm2 request (rq_target_ssl_tcp_port request) (ac_ssl io) sent = Some (pm', effs3)"
proof -
  obtain port :: u16 where port: "parse_word (rq_target_udp_port request) = Inr port"
    using assms by (auto simp: create_proxy_cut_def split: sum.splits)
  define ep where "ep = Endpoint_new port (rq_target_ip request) (rq_session_id request)"
  then have sid: "ep_session_id ep = rq_session_id request" by (simp add: Endpoint_new_def)
  note cut = assms [unfolded create_proxy_cut_def port sum.case Let_def, folded ep_def]
  show thesis
  proof (cases "pt = AtUdp")
    case True
    with cut show thesis by (intro udp [OF sid]) simp
  next
    case False
    with cut obtain p1 pm1 effs1 where
      one: "create_udp_by_mode env pm ep (rq_ufrag request) (ac_udp io) = Ret (Inr p1, pm1, effs1)"
      by (auto split: exec.splits sum.splits)
    show thesis
    proof (cases "pt = AtTcp")
      case True
      with False cut one show thesis by (auto intro: tcp [OF sid one])
    next
      case ssl': False
      with False cut one show thesis by (auto intro: ssl [OF sid one] split: prod.splits sum.splits)
    qed
  qed
qed

lemma create_tcp_cut_own:
  "create_tcp_cut env pm request port_str io sent = Some (pm', effs) \<Longrightarrow> own_tables pm \<Longrightarrow> own_tables pm'"
  using rpc_cut_own by (auto simp: create_tcp_cut_def split: sum.splits if_splits)

lemma create_udp_cut_own:
  assumes "create_udp_cut env pm ep ufrag io sent = Some (pm', effs)" "own_tables pm"
  shows "own_tables pm'"
proof (cases "pm_udp_mode pm")
  case PerSession
  with assms rpc_cut_own show ?thesis by (auto simp: create_udp_cut_def)
next
  case Pooled
  with assms(1) obtain i msg where "control_cut (pm\<lparr>pm_next_pooled := pm_next_pooled pm + 1\<rparr>) i msg sent = (pm', effs)"
    by (auto simp: create_udp_cut_def split: option.splits sum.splits if_splits)
  from control_cut_tables [OF this] assms(2) show ?thesis by (simp add: own_tables_def)
qed

lemma create_proxy_cut_own:
  assumes "create_proxy_cut env pm request io pt sent = Some (pm', effs)" "own_tables pm"
  shows "own_tables pm'"
  using assms(1)
proof (cases rule: create_proxy_cut_cases)
  case udp
  with assms(2) create_udp_cut_own show ?thesis by blast
next
  case tcp
  with assms(2) create_by_mode_own create_tcp_cut_own show ?thesis by metis
next
  case ssl
  with assms(2) create_by_mode_own create_tcp_own create_tcp_cut_own show ?thesis by metis
qed

lemma delete_cut_own:
  assumes "delete_udp_proxy_cut env pm p sid io sent = Some (pm', effs) \<or>
      delete_tcp_proxy_cut env pm p sid io sent = Some (pm', effs)"
    and "own_tables pm"
  shows "own_tables pm'"
  using assms rpc_cut_own [of env pm _ io sent pm' effs] control_cut_tables [of _ _ _ sent pm' effs]
  by (auto simp: delete_udp_proxy_cut_def delete_tcp_proxy_cut_def Let_def own_tables_def split: if_splits option.splits)

lemma manager_reachable_own: "manager_reachable env pm \<Longrightarrow> own_tables pm"
proof (induction rule: manager_reachable.induct)
  case mgr_start
  then show ?case
    by (auto simp: with_udp_pool_eq Let_def ProxyManager_new_def own_tables_def split: if_splits)
next
  case mgr_allocate
  then show ?case using create_proxy_own by blast
next
  case mgr_delete_udp
  then show ?case using delete_own by blast
next
  case mgr_delete_tcp
  then show ?case using delete_own by blast
next
  case mgr_allocate_cut
  then show ?case using create_proxy_cut_own by blast
next
  case mgr_delete_udp_cut
  then show ?case using delete_cut_own by blast
next
  case mgr_delete_tcp_cut
  then show ?case using delete_cut_own by blast
next
  case mgr_pool_step
  then show ?case by (simp add: own_tables_def)
qed simp

section \<open>What is kept of a session\<close>

text \<open>
  Seen from one session: its entries in the manager's tables, the ufrag each pooled socket has for it and,
  as long as the messages ahead of a request are not about it either (\<open>quiet\<close>), its endpoints.
\<close>

definition task_kept :: "string \<Rightarrow> ManagerTask \<Rightarrow> ManagerTask \<Rightarrow> bool" where
  "task_kept sid task task' \<longleftrightarrow>
     (\<forall>ep. ep_session_id ep = sid \<longrightarrow>
        fmlookup (mt_udp_proxy task') ep = fmlookup (mt_udp_proxy task) ep \<and>
        fmlookup (mt_tcp_proxy task') ep = fmlookup (mt_tcp_proxy task) ep)"

definition session_kept :: "string \<Rightarrow> bool \<Rightarrow> ProxyManager \<Rightarrow> ProxyManager \<Rightarrow> bool" where
  "session_kept sid quiet pm pm' \<longleftrightarrow>
     (\<forall>p. fmlookup (pm_udp_endpoints pm') (Session_of p sid) = fmlookup (pm_udp_endpoints pm) (Session_of p sid) \<and>
          fmlookup (pm_tcp_endpoints pm') (Session_of p sid) = fmlookup (pm_tcp_endpoints pm) (Session_of p sid)) \<and>
     map (\<lambda>(h, t). (h, fmlookup (u_sessions t) sid)) (pm_udp_pool pm') =
       map (\<lambda>(h, t). (h, fmlookup (u_sessions t) sid)) (pm_udp_pool pm) \<and>
     (quiet \<longrightarrow> task_kept sid (pm_tx pm) (pm_tx pm'))"

lemma task_kept_refl [simp]: "task_kept sid task task"
  by (simp add: task_kept_def)

lemma task_kept_trans: "task_kept sid a b \<Longrightarrow> task_kept sid b c \<Longrightarrow> task_kept sid a c"
  by (simp add: task_kept_def)

lemma session_kept_refl [simp]: "session_kept sid quiet pm pm"
  by (simp add: session_kept_def)

lemma session_kept_trans: "session_kept sid quiet a b \<Longrightarrow> session_kept sid quiet b c \<Longrightarrow> session_kept sid quiet a c"
  unfolding session_kept_def using task_kept_trans by metis

lemma session_kept_task:
  "(quiet \<Longrightarrow> task_kept sid (pm_tx pm) task) \<Longrightarrow> session_kept sid quiet pm (pm\<lparr>pm_tx := task\<rparr>)"
  by (simp add: session_kept_def)

text \<open>A pooled socket that keeps a session may be replaced.\<close>

lemma session_kept_pool:
  assumes "pm_udp_pool pm ! i = (h, t)" "fmlookup (u_sessions t') sid = fmlookup (u_sessions t) sid"
  shows "map (\<lambda>(h, t). (h, fmlookup (u_sessions t) sid)) ((pm_udp_pool pm)[i := (h, t')]) =
    map (\<lambda>(h, t). (h, fmlookup (u_sessions t) sid)) (pm_udp_pool pm)"
proof (cases "i < length (pm_udp_pool pm)")
  case True
  with assms show ?thesis by (simp add: map_update list_update_same_conv)
qed (simp add: list_update_beyond)

text \<open>The messages of the manager's task that are not about a session.\<close>

fun msg_session :: "ProxyManagerMsg \<Rightarrow> string option" where
  "msg_session (CreateUdpProxy rt ep) = Some (ep_session_id ep)"
| "msg_session (CreateTcpProxy rt ep) = Some (ep_session_id ep)"
| "msg_session (DeleteUdpProxy rt ep) = Some (ep_session_id ep)"
| "msg_session (DeleteTcpProxy rt ep) = Some (ep_session_id ep)"
| "msg_session (UdpEndpointEnded ep) = Some (ep_session_id ep)"
| "msg_session (TcpEndpointEnded ep) = Some (ep_session_id ep)"
| "msg_session _ = None"

lemma create_udp_other:
  "create_udp_proxy_impl env m k io = (r, m', effs) \<Longrightarrow> k' \<noteq> k \<Longrightarrow> fmlookup m' k' = fmlookup m k'"
  by (erule udp_table.create_cases) auto

lemma create_tcp_other:
  "create_tcp_proxy_impl m k io = (r, m', effs) \<Longrightarrow> k' \<noteq> k \<Longrightarrow> fmlookup m' k' = fmlookup m k'"
  by (erule tcp_table.create_cases) auto

lemmas other_entries = create_udp_other create_tcp_other udp_table.delete_lookup(2) tcp_table.delete_lookup(2)

lemma manager_handle_kept:
  assumes "msg_session msg \<noteq> Some sid"
  shows "task_kept sid task (fst (manager_handle env task io msg))"
  using assms by (cases msg) (auto simp: task_kept_def split: prod.splits, (metis other_entries)+)

lemma manager_run_kept:
  "\<forall>m\<in>set q. msg_session (fst m) \<noteq> Some sid \<Longrightarrow> task_kept sid task (fst (manager_run env task q))"
proof (induction q arbitrary: task)
  case (Cons x q)
  obtain msg io where x: "x = (msg, io)" by (cases x)
  with Cons.prems manager_handle_kept [of msg sid task env io] Cons.IH [of "fst (manager_handle env task io msg)"]
  show ?case by (simp add: manager_run_fst) (blast intro: task_kept_trans)
qed simp

text \<open>A call to the task for another session, behind messages that are not about the session either.\<close>

lemma rpc_kept:
  assumes "\<forall>m\<in>set (ci_ahead io). msg_session (fst m) \<noteq> Some sid" "msg_session msg \<noteq> Some sid"
  shows "task_kept sid task (fst (snd (rpc env task msg io)))"
proof -
  obtain task1 effs1 where run: "manager_run env task (ci_ahead io) = (task1, effs1)" by fastforce
  have "task_kept sid task task1" using manager_run_kept [OF assms(1), of task env] run by simp
  moreover have "task_kept sid task1 (fst (manager_handle env task1 (ci_mgr io) msg))"
    by (rule manager_handle_kept [OF assms(2)])
  ultimately have "task_kept sid task (fst (manager_handle env task1 (ci_mgr io) msg))" by (rule task_kept_trans)
  then show ?thesis by (auto simp: rpc_def run split: rpc_io.splits prod.splits option.splits)
qed

lemma rpc_cut_kept:
  assumes "rpc_cut env pm msg io sent = (pm', effs)" "msg_session msg \<noteq> Some sid"
    and "quiet \<Longrightarrow> \<forall>m\<in>set (ci_ahead io). msg_session (fst m) \<noteq> Some sid"
  shows "session_kept sid quiet pm pm'"
proof -
  have "pm' = pm \<or> pm' = pm\<lparr>pm_tx := fst (snd (rpc env (pm_tx pm) msg (io\<lparr>ci_net := Delivered\<rparr>)))\<rparr>"
    using assms(1) by (auto simp: rpc_cut_def rpc_def split: if_splits prod.splits option.splits)
  with rpc_kept [of "io\<lparr>ci_net := Delivered\<rparr>" sid msg "pm_tx pm" env] assms(2,3) show ?thesis
    by (auto intro!: session_kept_task)
qed

section \<open>Each call keeps the other sessions\<close>

lemma create_udp_internal_kept:
  assumes "create_udp_proxy_internal env pm ep io = (r, pm', effs)" "ep_session_id ep \<noteq> sid"
    and "quiet \<Longrightarrow> \<forall>m\<in>set (ci_ahead io). msg_session (fst m) \<noteq> Some sid"
  shows "session_kept sid quiet pm pm'"
proof -
  have "pm_tx pm' = fst (snd (rpc env (pm_tx pm) (CreateUdpProxy (ci_rt io) ep) io))"
    using assms(1) by (auto simp: create_udp_proxy_internal_def Let_def split: prod.splits rpc_result.splits ProxyManagerMsg.splits)
  moreover have "quiet \<Longrightarrow> task_kept sid (pm_tx pm) (fst (snd (rpc env (pm_tx pm) (CreateUdpProxy (ci_rt io) ep) io)))"
    using rpc_kept assms(2,3) by simp
  ultimately show ?thesis
    using create_udp_proxy_internal_frame [OF assms(1)] assms(2)
    by (simp add: session_kept_def Session_of_def split: sum.splits)
qed

lemma create_pooled_kept:
  assumes "create_pooled_udp_proxy env pm ep ufrag io = Ret (r, pm', effs)" "ep_session_id ep \<noteq> sid"
  shows "session_kept sid quiet pm pm'"
  using assms(1)
proof (cases rule: create_pooled_cases)
  case (closed i h t t' u target effs' e)
  then have "t' = t"
    by (auto simp: handler_add_route_def simp del: on_control.simps split: rpc_io.splits prod.splits)
  with session_kept_pool [OF closed(3)] show ?thesis by (simp add: closed(7) session_kept_def)
next
  case (routed i h t t' u target effs')
  obtain effs2 where "on_control t (AddRoute (ep_session_id ep) u target (ci_rt io)) = (t', effs2)"
    using routed(7) by (auto simp: handler_add_route_def simp del: on_control.simps split: rpc_io.splits prod.splits)
  from on_control_AddRoute(1) [OF this] assms(2) have "fmlookup (u_sessions t') sid = fmlookup (u_sessions t) sid" by simp
  from session_kept_pool [OF routed(3) this] assms(2) show ?thesis
    by (simp add: routed(9) session_kept_def Session_of_def)
qed simp

lemma create_by_mode_kept:
  assumes "create_udp_by_mode env pm ep ufrag io = Ret (r, pm', effs)" "ep_session_id ep \<noteq> sid"
    and "quiet \<Longrightarrow> \<forall>m\<in>set (ci_ahead io). msg_session (fst m) \<noteq> Some sid"
  shows "session_kept sid quiet pm pm'"
  using assms create_udp_internal_kept [of env pm ep io r pm' effs sid quiet] create_pooled_kept
  by (cases "pm_udp_mode pm") (simp_all add: create_udp_by_mode_def)

lemma create_tcp_kept:
  assumes "create_tcp_if_wanted env pm request port_str io = (r, pm', effs)" "rq_session_id request \<noteq> sid"
    and "quiet \<Longrightarrow> \<forall>m\<in>set (ci_ahead io). msg_session (fst m) \<noteq> Some sid"
  shows "session_kept sid quiet pm pm'"
proof -
  have "quiet \<Longrightarrow> task_kept sid (pm_tx pm) (fst (snd (rpc env (pm_tx pm)
      (CreateTcpProxy (ci_rt io) (Endpoint_new p (rq_target_ip request) (rq_session_id request))) io)))" for p
    using rpc_kept assms(2,3) by (simp add: Endpoint_new_def)
  then show ?thesis
    using assms(1,2)
    by (auto simp: create_tcp_if_wanted_def create_tcp_proxy_internal_def Let_def session_kept_def Session_of_def
        Endpoint_new_def split: prod.splits sum.splits rpc_result.splits ProxyManagerMsg.splits if_splits)
      (metis fst_conv snd_conv)+
qed

lemma control_cut_kept:
  assumes "control_cut pm i msg sent = (pm', effs)"
    and "\<And>t t' es. on_control t msg = (t', es) \<Longrightarrow> fmlookup (u_sessions t') sid = fmlookup (u_sessions t) sid"
  shows "session_kept sid quiet pm pm'"
proof (cases sent)
  case True
  obtain h t where ht: "pm_udp_pool pm ! i = (h, t)" by fastforce
  obtain t' es where c: "on_control t msg = (t', es)" by fastforce
  from True assms(1) ht c have "pm' = pm\<lparr>pm_udp_pool := (pm_udp_pool pm)[i := (h, t')]\<rparr>"
    by (auto simp: control_cut_def simp del: on_control.simps)
  with session_kept_pool [OF ht assms(2) [OF c]] show ?thesis by (simp add: session_kept_def)
qed (use assms(1) in \<open>simp add: control_cut_def\<close>)

lemma create_udp_cut_kept:
  assumes "create_udp_cut env pm ep ufrag io sent = Some (pm', effs)" "ep_session_id ep \<noteq> sid"
    and "quiet \<Longrightarrow> \<forall>m\<in>set (ci_ahead io). msg_session (fst m) \<noteq> Some sid"
  shows "session_kept sid quiet pm pm'"
proof (cases "pm_udp_mode pm")
  case PerSession
  with assms(1) have "rpc_cut env pm (CreateUdpProxy (ci_rt io) ep) io sent = (pm', effs)" by (simp add: create_udp_cut_def)
  from rpc_cut_kept [OF this] assms(2,3) show ?thesis by simp
next
  case Pooled
  let ?pm = "pm\<lparr>pm_next_pooled := pm_next_pooled pm + 1\<rparr>"
  obtain i u target where "control_cut ?pm i (AddRoute (ep_session_id ep) u target (ci_rt io)) sent = (pm', effs)"
    using Pooled assms(1) by (auto simp: create_udp_cut_def split: option.splits sum.splits if_splits)
  then have "session_kept sid quiet ?pm pm'"
    by (rule control_cut_kept) (use assms(2) on_control_AddRoute(1) in \<open>simp del: on_control.simps\<close>)
  then show ?thesis by (simp add: session_kept_def)
qed

lemma create_tcp_cut_kept:
  assumes "create_tcp_cut env pm request port_str io sent = Some (pm', effs)" "rq_session_id request \<noteq> sid"
    and "quiet \<Longrightarrow> \<forall>m\<in>set (ci_ahead io). msg_session (fst m) \<noteq> Some sid"
  shows "session_kept sid quiet pm pm'"
  using assms(1) rpc_cut_kept [OF _ _ assms(3)] assms(2)
  by (auto simp: create_tcp_cut_def Endpoint_new_def split: sum.splits if_splits)

lemma delete_udp_kept:
  assumes "own_tables pm" "manager_wf pm" "delete_udp_proxy env pm p sid' io = (r, pm', effs)" "sid' \<noteq> sid"
    and "quiet \<Longrightarrow> \<forall>m\<in>set (ci_ahead io). msg_session (fst m) \<noteq> Some sid"
  shows "session_kept sid quiet pm pm'"
proof (cases "pm_udp_mode pm = Pooled")
  case True
  with assms(3) have del: "delete_pooled_udp_proxy pm p sid' io = (r, pm', effs)" by (simp add: delete_udp_proxy_def)
  with assms(2) True show ?thesis
  proof (cases rule: delete_pooled_cases)
    case (listed i h t r0 t' effs')
    have "fmlookup (u_sessions t') sid = fmlookup (u_sessions t) sid"
      using listed(4) assms(4) on_control_RemoveSession(1) [of t sid' "ci_rt io"]
      by (auto simp: handler_remove_session_def simp del: on_control.simps split: rpc_io.splits prod.splits)
    from session_kept_pool [OF listed(2) this] assms(4) show ?thesis
      by (simp add: listed(5) session_kept_def Session_of_def)
  qed simp
next
  case False
  have "ep_session_id ep = sid'" if "fmlookup (pm_udp_endpoints pm) (Session_of p sid') = Some ep" for ep
    using assms(1) that by (simp add: own_tables_def own_entries_def Session_of_def)
  moreover have "quiet \<Longrightarrow> ep_session_id ep = sid' \<Longrightarrow>
      task_kept sid (pm_tx pm) (fst (snd (rpc env (pm_tx pm) (DeleteUdpProxy (ci_rt io) ep) io)))" for ep
    using rpc_kept assms(4,5) by simp
  ultimately show ?thesis
    using assms(3) False
    by (auto simp: delete_udp_proxy_def intro!: session_kept_task split: option.splits prod.splits)
      (metis fst_conv snd_conv)+
qed

lemma delete_tcp_kept:
  assumes "own_tables pm" "delete_tcp_proxy env pm p sid' io = (r, pm', effs)" "sid' \<noteq> sid"
    and "quiet \<Longrightarrow> \<forall>m\<in>set (ci_ahead io). msg_session (fst m) \<noteq> Some sid"
  shows "session_kept sid quiet pm pm'"
proof -
  have "ep_session_id ep = sid'" if "fmlookup (pm_tcp_endpoints pm) (Session_of p sid') = Some ep" for ep
    using assms(1) that by (simp add: own_tables_def own_entries_def Session_of_def)
  moreover have "quiet \<Longrightarrow> ep_session_id ep = sid' \<Longrightarrow>
      task_kept sid (pm_tx pm) (fst (snd (rpc env (pm_tx pm) (DeleteTcpProxy (ci_rt io) ep) io)))" for ep
    using rpc_kept assms(3,4) by simp
  ultimately show ?thesis
    using assms(2)
    by (auto simp: delete_tcp_proxy_def intro!: session_kept_task split: option.splits prod.splits)
      (metis fst_conv snd_conv)+
qed

lemma delete_udp_cut_kept:
  assumes "own_tables pm" "manager_wf pm" "delete_udp_proxy_cut env pm p sid' io sent = Some (pm', effs)" "sid' \<noteq> sid"
    and "quiet \<Longrightarrow> \<forall>m\<in>set (ci_ahead io). msg_session (fst m) \<noteq> Some sid"
  shows "session_kept sid quiet pm pm'"
proof (cases "pm_udp_mode pm = Pooled")
  case True
  let ?io = "io\<lparr>ci_net := if sent then Delivered else SendClosed\<rparr>"
  from delete_pooled_cut_eq [OF True assms(3)] True obtain r effs' where
    "delete_udp_proxy env pm p sid' ?io = (r, pm', effs')" by (auto simp: delete_udp_proxy_def)
  from delete_udp_kept [OF assms(1,2) this assms(4)] assms(5) show ?thesis by simp
next
  case False
  with assms(3) obtain ep where ep: "fmlookup (pm_udp_endpoints pm) (Session_of p sid') = Some ep"
    and cut: "rpc_cut env pm (DeleteUdpProxy (ci_rt io) ep) io sent = (pm', effs)"
    by (auto simp: delete_udp_proxy_cut_def split: option.splits)
  have "ep_session_id ep = sid'" using assms(1) ep by (simp add: own_tables_def own_entries_def Session_of_def)
  with rpc_cut_kept [OF cut _ assms(5)] assms(4) show ?thesis by simp
qed

lemma delete_tcp_cut_kept:
  assumes "own_tables pm" "delete_tcp_proxy_cut env pm p sid' io sent = Some (pm', effs)" "sid' \<noteq> sid"
    and "quiet \<Longrightarrow> \<forall>m\<in>set (ci_ahead io). msg_session (fst m) \<noteq> Some sid"
  shows "session_kept sid quiet pm pm'"
proof -
  from assms(2) obtain ep where ep: "fmlookup (pm_tcp_endpoints pm) (Session_of p sid') = Some ep"
    and cut: "rpc_cut env pm (DeleteTcpProxy (ci_rt io) ep) io sent = (pm', effs)"
    by (auto simp: delete_tcp_proxy_cut_def)
  have "ep_session_id ep = sid'" using assms(1) ep by (simp add: own_tables_def own_entries_def Session_of_def)
  with rpc_cut_kept [OF cut _ assms(4)] assms(3) show ?thesis by simp
qed

section \<open>Requests\<close>

text \<open>The session a request is for, and the messages its calls to the manager's task find ahead of them.\<close>

fun call_session :: "http_call \<Rightarrow> string option" where
  "call_session (AllocateCall request io) = Some (rq_session_id request)"
| "call_session (DeleteCall p session udp_io tcp_io) = Some session"
| "call_session _ = None"

fun call_ahead :: "http_call \<Rightarrow> (ProxyManagerMsg \<times> mgr_io) set" where
  "call_ahead (AllocateCall request io) =
     set (ci_ahead (ac_udp io)) \<union> set (ci_ahead (ac_tcp io)) \<union> set (ci_ahead (ac_ssl io))"
| "call_ahead (DeleteCall p session udp_io tcp_io) = set (ci_ahead udp_io) \<union> set (ci_ahead tcp_io)"
| "call_ahead _ = {}"

abbreviation quiet_for :: "string \<Rightarrow> http_call \<Rightarrow> bool" where
  "quiet_for sid call \<equiv> \<forall>m\<in>call_ahead call. msg_session (fst m) \<noteq> Some sid"

lemma allocate_kept:
  assumes "create_proxy env pm request io = Ret (r, pm', effs)" "rq_session_id request \<noteq> sid"
  shows "session_kept sid (quiet_for sid (AllocateCall request io)) pm pm'"
  using assms(1)
proof (cases rule: create_proxy_cases)
  case (udp port ep r1 effs1)
  show ?thesis by (rule create_by_mode_kept [OF udp(3)]) (use udp(2) assms(2) in \<open>auto simp: Endpoint_new_def\<close>)
next
  case (tcp port ep p1 pm1 effs1 e effs2)
  have "session_kept sid (quiet_for sid (AllocateCall request io)) pm pm1"
    by (rule create_by_mode_kept [OF tcp(3)]) (use tcp(2) assms(2) in \<open>auto simp: Endpoint_new_def\<close>)
  moreover have "session_kept sid (quiet_for sid (AllocateCall request io)) pm1 pm'"
    by (rule create_tcp_kept [OF tcp(4) assms(2)]) auto
  ultimately show ?thesis by (rule session_kept_trans)
next
  case (ssl port ep p1 pm1 effs1 p2 pm2 effs2 r3 effs3)
  have "session_kept sid (quiet_for sid (AllocateCall request io)) pm pm1"
    by (rule create_by_mode_kept [OF ssl(3)]) (use ssl(2) assms(2) in \<open>auto simp: Endpoint_new_def\<close>)
  moreover have "session_kept sid (quiet_for sid (AllocateCall request io)) pm1 pm2"
    by (rule create_tcp_kept [OF ssl(4) assms(2)]) auto
  moreover have "session_kept sid (quiet_for sid (AllocateCall request io)) pm2 pm'"
    by (rule create_tcp_kept [OF ssl(5) assms(2)]) auto
  ultimately show ?thesis by (blast intro: session_kept_trans)
qed

lemma allocate_cut_kept:
  assumes "create_proxy_cut env pm request io pt sent = Some (pm', effs)" "rq_session_id request \<noteq> sid"
  shows "session_kept sid (quiet_for sid (AllocateCall request io)) pm pm'"
  using assms(1)
proof (cases rule: create_proxy_cut_cases)
  case (udp ep)
  show ?thesis by (rule create_udp_cut_kept [OF udp(2)]) (use udp(1) assms(2) in auto)
next
  case (tcp ep p1 pm1 effs1 effs2)
  have "session_kept sid (quiet_for sid (AllocateCall request io)) pm pm1"
    by (rule create_by_mode_kept [OF tcp(2)]) (use tcp(1) assms(2) in auto)
  moreover have "session_kept sid (quiet_for sid (AllocateCall request io)) pm1 pm'"
    by (rule create_tcp_cut_kept [OF tcp(3) assms(2)]) auto
  ultimately show ?thesis by (rule session_kept_trans)
next
  case (ssl ep p1 pm1 effs1 p2 pm2 effs2 effs3)
  have "session_kept sid (quiet_for sid (AllocateCall request io)) pm pm1"
    by (rule create_by_mode_kept [OF ssl(2)]) (use ssl(1) assms(2) in auto)
  moreover have "session_kept sid (quiet_for sid (AllocateCall request io)) pm1 pm2"
    by (rule create_tcp_kept [OF ssl(3) assms(2)]) auto
  moreover have "session_kept sid (quiet_for sid (AllocateCall request io)) pm2 pm'"
    by (rule create_tcp_cut_kept [OF ssl(4) assms(2)]) auto
  ultimately show ?thesis by (blast intro: session_kept_trans)
qed

lemma delete_kept:
  assumes reach: "manager_reachable env pm" and "delete_proxy env pm p sid' udp_io tcp_io = (resp, pm', effs)" "sid' \<noteq> sid"
  shows "session_kept sid (quiet_for sid (DeleteCall p sid' udp_io tcp_io)) pm pm'"
proof -
  let ?kept = "session_kept sid (quiet_for sid (DeleteCall p sid' udp_io tcp_io))"
  obtain r1 pm1 effs1 where one: "delete_udp_proxy env pm p sid' udp_io = (r1, pm1, effs1)" by (metis prod_cases3)
  obtain r2 pm2 effs2 where two: "delete_tcp_proxy env pm1 p sid' tcp_io = (r2, pm2, effs2)" by (metis prod_cases3)
  have "?kept pm pm1"
    by (rule delete_udp_kept [OF manager_reachable_own [OF reach] manager_reachable_wf [OF reach] one assms(3)]) auto
  moreover have "?kept pm1 pm2"
    by (rule delete_tcp_kept [OF manager_reachable_own [OF mgr_delete_udp [OF reach one]] two assms(3)]) auto
  moreover have "pm' = pm1 \<or> pm' = pm2"
    using assms(2) one two by (auto simp: delete_proxy_def split: sum.splits)
  ultimately show ?thesis by (blast intro: session_kept_trans)
qed

lemma handler_cut_kept:
  assumes reach: "manager_reachable env pm" and cut: "handler_cut env pm call pt = Some (pm', effs)"
    and other: "call_session call \<noteq> Some sid"
  shows "session_kept sid (quiet_for sid call) pm pm'"
proof (cases "(env, pm, call, pt)" rule: handler_cut.cases)
  case (4 env' pm0 p session udp_io tcp_io sent)
  then have eq: "env' = env" "pm0 = pm" "call = DeleteCall p session udp_io tcp_io" "pt = InDeleteUdp sent"
    by simp_all
  with cut have "delete_udp_proxy_cut env pm p session udp_io sent = Some (pm', effs)" by simp
  then show ?thesis
    by (rule delete_udp_cut_kept [OF manager_reachable_own [OF reach] manager_reachable_wf [OF reach]])
      (use other eq in auto)
next
  case (5 env' pm0 p session udp_io tcp_io sent)
  then have eq: "env' = env" "pm0 = pm" "call = DeleteCall p session udp_io tcp_io" "pt = InDeleteTcp sent"
    by simp_all
  from cut obtain e pm1 effs1 effs2 where one: "delete_udp_proxy env pm p session udp_io = (Inl e, pm1, effs1)"
    and two: "delete_tcp_proxy_cut env pm1 p session tcp_io sent = Some (pm', effs2)"
    by (auto simp: eq split: prod.splits sum.splits)
  have "session_kept sid (quiet_for sid call) pm pm1"
    by (rule delete_udp_kept [OF manager_reachable_own [OF reach] manager_reachable_wf [OF reach] one])
      (use other eq in auto)
  moreover have "session_kept sid (quiet_for sid call) pm1 pm'"
    by (rule delete_tcp_cut_kept [OF manager_reachable_own [OF mgr_delete_udp [OF reach one]] two])
      (use other eq in auto)
  ultimately show ?thesis by (rule session_kept_trans)
qed (use cut other allocate_cut_kept in auto)

text \<open>
  C21. A request touches the entries of its own session only: in every reachable state and whatever
  becomes of the request (it is shed, rejected, answered in any way, or cut at any \<open>await\<close>), the
  manager's entries of every other session and the ufrag each pooled socket has for it stay as they
  are, and so do the UDP and TCP endpoints registered for it, unless messages about that session were
  on the channel ahead of the request.  (Two sessions that name the same ufrag on a socket share its
  route; a request for one may reroute it for both.)
\<close>

theorem request_touches_own_session:
  assumes "manager_reachable env pm"
    and "AllocatorService_call var env pm call f = Some (Ret (resp, labels, pm', effs))"
    and "call_session call \<noteq> Some sid"
  shows "session_kept sid (\<forall>m\<in>call_ahead call. msg_session (fst m) \<noteq> Some sid) pm pm'"
proof -
  from assms(2) have lay: "layered env pm call f = Some (Ret (resp, pm', effs))"
    by (auto simp: AllocatorService_call_def exec_bind_Ret_iff)
  show ?thesis
  proof (cases f)
    case Shed
    with lay show ?thesis by (simp add: layered_def)
  next
    case Completes
    with lay have run: "run_handler env pm call = Ret (resp, pm', effs)" by (simp add: layered_def)
    show ?thesis
    proof (cases call)
      case (AllocateCall request io)
      from run [unfolded AllocateCall run_handler.simps allocate_proxy_def exec_bind_Ret_iff]
      obtain r where "create_proxy env pm request io = Ret (r, pm', effs)" by (fastforce split: sum.splits)
      from allocate_kept [OF this] assms(3) AllocateCall show ?thesis by simp
    next
      case (DeleteCall p session udp_io tcp_io)
      with run have "delete_proxy env pm p session udp_io tcp_io = (resp, pm', effs)" by simp
      from delete_kept [OF assms(1) this] assms(3) DeleteCall show ?thesis by simp
    qed (use run in simp_all)
  next
    case (TimesOut pt)
    with lay have "handler_cut env pm call pt = Some (pm', effs)" by (auto simp: layered_def)
    from handler_cut_kept [OF assms(1) this assms(3)] show ?thesis .
  qed
qed

text \<open>A second session is allocated next to one that is served.\<close>

theorem request_touches_own_session_witness:
  "\<exists>pm resp labels pm' effs. manager_reachable demo_env pm \<and>
     AllocatorService_call Map.empty demo_env pm
       (AllocateCall (demo_request\<lparr>rq_session_id := ''t'', rq_ufrag := Some ''v''\<rparr>) demo_acall) Completes =
       Some (Ret (resp, labels, pm', effs)) \<and>
     fmlookup (pm_udp_endpoints pm) (Session_of 4000 ''s'') = Some (Endpoint_new 80 ''h'' ''s'') \<and>
     fmlookup (pm_udp_endpoints pm') (Session_of 4000 ''s'') = Some (Endpoint_new 80 ''h'' ''s'') \<and>
     task_kept ''s'' (pm_tx pm) (pm_tx pm')"
proof -
  let ?rq = "demo_request\<lparr>rq_session_id := ''t'', rq_ufrag := Some ''v''\<rparr>"
  obtain pm effs where alloc: "create_proxy demo_env demo_pooled demo_request demo_acall =
      Ret (Inr \<lparr>rs_proxy_udp_port = 4000, rs_proxy_tcp_port = 5000, rs_proxy_ssl_tcp_port = 0\<rparr>, pm, effs)"
    "fmlookup (pm_udp_endpoints pm) (Session_of 4000 ''s'') = Some (Endpoint_new 80 ''h'' ''s'')"
    using demo_allocated by blast
  note reach = mgr_allocate [OF demo_pooled_reachable alloc(1)]
  have "parse_word (rq_target_udp_port ?rq) = Inr (80 :: u16)" by (simp add: demo_parse)
  from create_proxy_returns [OF reach this] obtain r pm' effs' where
    "create_proxy demo_env pm ?rq demo_acall = Ret (r, pm', effs')" by blast
  then have "\<exists>resp labels. AllocatorService_call Map.empty demo_env pm (AllocateCall ?rq demo_acall) Completes =
      Some (Ret (resp, labels, pm', effs'))"
    by (auto simp: AllocatorService_call_def layered_def allocate_proxy_def split: sum.splits)
  then obtain resp labels where call: "AllocatorService_call Map.empty demo_env pm (AllocateCall ?rq demo_acall) Completes =
      Some (Ret (resp, labels, pm', effs'))" by blast
  have "call_session (AllocateCall ?rq demo_acall) \<noteq> Some ''s''" by simp
  from request_touches_own_session [OF reach call this]
  have "fmlookup (pm_udp_endpoints pm') (Session_of 4000 ''s'') = fmlookup (pm_udp_endpoints pm) (Session_of 4000 ''s'')"
    "task_kept ''s'' (pm_tx pm) (pm_tx pm')"
    by (simp_all add: session_kept_def)
  with reach call alloc(2) show ?thesis by auto
qed

end
