(* ===== verification/Register.thy ===== *)
theory Register
  imports Config "HOL-Library.Sublist"
begin

text \<open>
  Registration with the control plane, \<^verbatim>\<open>src/manager/register.rs\<close>: the web socket client, the
  heartbeat, the retry loop of the agent and the signal handler.  The texts sent over the web
  socket are kept as the values they serialise (\<^verbatim>\<open>src/manager/models.rs\<close>).
\<close>

section \<open>Messages\<close>

record LoadReport =
  lr_type :: string
  lr_load :: u32

record RegisterRequest =
  rr_type :: string
  rr_guid :: string
  rr_public_ipv4 :: string
  rr_public_ipv6 :: string
  rr_private_ip :: string
  rr_az :: string

record DeregisterRequest =
  dr_type :: string
  dr_drain_period_sec :: u32

datatype ws_message = WsRegister RegisterRequest | WsLoad LoadReport | WsDeregister DeregisterRequest

definition register_request :: "environment \<Rightarrow> string \<Rightarrow> RegisterRequest" where
  "register_request var uuid =
     \<lparr>rr_type = ''register'', rr_guid = PROXY_GUID var uuid, rr_public_ipv4 = PUBLIC_IPV4 var,
      rr_public_ipv6 = PUBLIC_IPV6 var, rr_private_ip = PRIVATE_IP var, rr_az = AVAILABILITY_ZONE var\<rparr>"

section \<open>The client\<close>

text \<open>
  \<open>RegisterClient::connect\<close>: connect, send the registration, then forward the messages on the
  agent's channel to the socket, in order, until either direction ends.  \<open>queue\<close> are the messages
  that were put on the channel; the result is what went over the socket and what is left on the
  channel.  What becomes of the connection depends on the address; \<open>SessionOpen n\<close> has forwarded \<open>n\<close> messages and goes on; \<open>SessionEnded n lost\<close> has
  forwarded \<open>n\<close>, and \<open>lost\<close> tells whether a further message was taken off the channel and not sent.
\<close>

record RegisterClient =
  rc_url :: string
  rc_data :: RegisterRequest

definition RegisterClient_new :: "string \<Rightarrow> RegisterRequest \<Rightarrow> RegisterClient" where
  "RegisterClient_new url data = \<lparr>rc_url = url, rc_data = data\<rparr>"

datatype ws_io = ConnectRefused err | RegisterSendErr err | SessionOpen nat | SessionEnded nat bool

definition RegisterClient_connect :: "RegisterClient \<Rightarrow> ws_message list \<Rightarrow> (string \<Rightarrow> ws_io)
    \<Rightarrow> unit result poll \<times> ws_message list \<times> ws_message list" where
  "RegisterClient_connect client queue io =
     (case io (rc_url client) of
        ConnectRefused e \<Rightarrow> (Ready (Inl ''Connection failed''), [], queue)
      | RegisterSendErr e \<Rightarrow> (Ready (Inl e), [], queue)
      | SessionOpen n \<Rightarrow> (Pending, WsRegister (rc_data client) # take n queue, drop n queue)
      | SessionEnded n lost \<Rightarrow>
          (Ready (Inl ''Connection failed''), WsRegister (rc_data client) # take n queue,
           drop (if lost then Suc n else n) queue))"

section \<open>The heartbeat\<close>

text \<open>
  One beat: the load, and the error of putting the report on the agent's channel, if any.
  \<open>unique\<close> tells whether the agent holds the only reference to the load reporter; \<open>get_mut\<close> fails
  otherwise and the \<open>unwrap\<close> panics.
\<close>

record beat =
  hb_load :: "u32 result"
  hb_send_err :: "err option"

fun heartbeat :: "bool \<Rightarrow> beat list \<Rightarrow> (unit result poll \<times> ws_message list) exec" where
  "heartbeat unique [] = Ret (Pending, [])"
| "heartbeat unique (b # bs) =
     (if \<not> unique then Panic
      else
        (case hb_load b of
           Inl e \<Rightarrow> Ret (Ready (Inl ''Can not get load''), [])
         | Inr percent \<Rightarrow>
             (case hb_send_err b of
                Some e \<Rightarrow> Ret (Ready (Inr ()), [])
              | None \<Rightarrow>
                  exec_bind (heartbeat unique bs) (\<lambda>(p, ms).
                    Ret (p, WsLoad \<lparr>lr_type = ''load'', lr_load = percent\<rparr> # ms)))))"

section \<open>The agent\<close>

text \<open>\<open>try_join!\<close>: ready with the first error, or when both are done.\<close>

fun try_join :: "unit result poll \<Rightarrow> unit result poll \<Rightarrow> unit result poll" where
  "try_join (Ready (Inl e)) q = Ready (Inl e)"
| "try_join p (Ready (Inl e)) = Ready (Inl e)"
| "try_join (Ready (Inr u)) (Ready (Inr v)) = Ready (Inr ())"
| "try_join p q = Pending"

text \<open>
  One attempt: the two futures as far as they got, and the message the signal handler put on the
  channel meanwhile, if any, with the number of load reports before it.
\<close>

record attempt =
  at_ws :: "string \<Rightarrow> ws_io"
  at_beats :: "beat list"
  at_signal :: "(nat \<times> ws_message) option"

definition pushed :: "ws_message list \<Rightarrow> (nat \<times> ws_message) option \<Rightarrow> ws_message list" where
  "pushed reports signal =
     (case signal of None \<Rightarrow> reports | Some (n, m) \<Rightarrow> take n reports @ m # drop n reports)"

definition attempt_result :: "RegisterClient \<Rightarrow> bool \<Rightarrow> ws_message list \<Rightarrow> attempt
    \<Rightarrow> (unit result poll \<times> ws_message list \<times> ws_message list) exec" where
  "attempt_result client unique queue a =
     exec_bind (heartbeat unique (at_beats a)) (\<lambda>(hb, reports).
       case RegisterClient_connect client (queue @ pushed reports (at_signal a)) (at_ws a) of
         (ws, sent, queue') \<Rightarrow> Ret (try_join ws hb, sent, queue'))"

text \<open>
  The retry loop of \<open>RegisterAgent::run\<close>, with what went over the socket in each attempt.
  \<open>cur_attempt\<close> is compared with a \<open>u16\<close> and so is one; its increment panics on overflow if the
  build checks for it and wraps around otherwise.
\<close>

fun register_loop :: "bool \<Rightarrow> RegisterClient \<Rightarrow> bool \<Rightarrow> u16 \<Rightarrow> u16 \<Rightarrow> ws_message list \<Rightarrow> attempt list
    \<Rightarrow> (unit result poll \<times> ws_message list list) exec" where
  "register_loop checks client unique max_attempt cur_attempt queue [] = Ret (Pending, [])"
| "register_loop checks client unique max_attempt cur_attempt queue (a # as) =
     exec_bind (attempt_result client unique queue a) (\<lambda>(r, sent, queue').
       case r of
         Pending \<Rightarrow> Ret (Pending, [sent])
       | Ready (Inr u) \<Rightarrow> Ret (Ready (Inr ()), [sent])
       | Ready (Inl e) \<Rightarrow>
           if checks \<and> checked_add cur_attempt 1 = None then Panic
           else if cur_attempt + 1 > max_attempt
           then Ret (Ready (Inl ''error during registration happened''), [sent])
           else exec_bind (register_loop checks client unique max_attempt (cur_attempt + 1) queue' as)
                  (\<lambda>(p, sents). Ret (p, sent # sents)))"

text \<open>
  The agent with the receiving end of its channel, which \<open>run\<close> takes out and unwraps; \<open>ra_rx\<close> holds the
  messages on it.
\<close>

record RegisterAgent =
  ra_url :: string
  ra_rx :: "ws_message list option"

definition RegisterAgent_new :: "string \<Rightarrow> RegisterAgent" where
  "RegisterAgent_new url = \<lparr>ra_url = url, ra_rx = Some []\<rparr>"

definition RegisterAgent_run :: "bool \<Rightarrow> environment \<Rightarrow> string \<Rightarrow> RegisterAgent \<Rightarrow> bool \<Rightarrow> attempt list
    \<Rightarrow> (unit result poll \<times> ws_message list list) exec \<times> RegisterAgent" where
  "RegisterAgent_run checks var uuid agent unique as =
     (let client = RegisterClient_new (ra_url agent) (register_request var uuid);
          agent' = agent\<lparr>ra_rx := None\<rparr> in
      case ra_rx agent of
        None \<Rightarrow> (Panic, agent')
      | Some queue \<Rightarrow>
          (register_loop checks client unique (MAX_REGISTRATION_ATTEMPTS var) 0 queue as, agent'))"

section \<open>The signal handler\<close>

text \<open>
  No signal yet; the stream of signals has ended; or a signal, with the error of queuing the message,
  if any.  \<open>slept\<close> tells whether the drain period is over.
\<close>

datatype 'sig signal_io = NoSignal | StreamEnded bool | Signalled 'sig "err option" bool

record SignalHandler =
  sh_delay :: u32

definition SignalHandler_new :: "u32 \<Rightarrow> SignalHandler" where
  "SignalHandler_new delay = \<lparr>sh_delay = delay\<rparr>"

definition drained :: "bool \<Rightarrow> unit result poll" where
  "drained slept = (if slept then Ready (Inl ''Exiting because of signal'') else Pending)"

definition SignalHandler_run :: "SignalHandler \<Rightarrow> 'sig signal_io \<Rightarrow> unit result poll \<times> ws_message list" where
  "SignalHandler_run handler io =
     (case io of
        NoSignal \<Rightarrow> (Pending, [])
      | StreamEnded slept \<Rightarrow> (drained slept, [])
      | Signalled s send_err slept \<Rightarrow>
          (case send_err of
             Some e \<Rightarrow> (Ready (Inl e), [])
           | None \<Rightarrow>
               (drained slept,
                [WsDeregister \<lparr>dr_type = ''deregister'', dr_drain_period_sec = sh_delay handler\<rparr>])))"

section \<open>Giving up\<close>

lemma agent_run_new:
  "fst (RegisterAgent_run checks var uuid (RegisterAgent_new url) unique as) =
     register_loop checks (RegisterClient_new url (register_request var uuid)) unique (MAX_REGISTRATION_ATTEMPTS var) 0 [] as"
  by (simp add: RegisterAgent_run_def RegisterAgent_new_def)

text \<open>The receiver is gone after the first call; a second one panics.\<close>

lemma agent_run_again:
  "fst (RegisterAgent_run checks var uuid (snd (RegisterAgent_run checks' var' uuid' agent unique' as')) unique as) = Panic"
  by (simp add: RegisterAgent_run_def Let_def split: option.splits)

lemma connect_not_ok: "fst (RegisterClient_connect client queue io) \<noteq> Ready (Inr u)"
  by (simp add: RegisterClient_connect_def split: ws_io.splits)

lemma try_join_not_ok: "p \<noteq> Ready (Inr ()) \<Longrightarrow> try_join p q \<noteq> Ready (Inr u)"
  by (cases "(p, q)" rule: try_join.cases) auto

lemma attempt_not_ok: "attempt_result client unique queue a \<noteq> Ret (Ready (Inr u), rest)"
  using try_join_not_ok connect_not_ok
  by (auto simp: attempt_result_def exec_bind_Ret_iff split: prod.splits) (metis fst_conv)

text \<open>
  The agent never reports success: whatever the control plane and the network do, \<open>run\<close> ends with
  an error, a panic, or not at all.
\<close>

lemma RegisterAgent_run_never_ok: "fst (RegisterAgent_run checks var uuid (RegisterAgent_new url) unique as) \<noteq> Ret (Ready (Inr u), sents)"
proof -
  have "register_loop checks client unique m cur queue as \<noteq> Ret (Ready (Inr u), sents)" for client m cur queue
  proof (induction "as" arbitrary: cur queue sents)
    case (Cons a as)
    show ?case
    proof (cases "attempt_result client unique queue a")
      case (Ret x)
      obtain r sent queue' where "x = (r, sent, queue')" by (metis prod_cases3)
      with Ret Cons.IH attempt_not_ok show ?thesis
        by (auto simp: exec_bind_Ret_iff split: poll.splits sum.splits if_splits prod.splits)
    qed simp
  qed simp
  then show ?thesis by (simp add: agent_run_new)
qed

text \<open>How an attempt ends does not depend on the channel.\<close>

definition attempt_poll :: "RegisterClient \<Rightarrow> bool \<Rightarrow> attempt \<Rightarrow> unit result poll exec" where
  "attempt_poll client unique a =
     exec_bind (heartbeat unique (at_beats a)) (\<lambda>(hb, reports).
       Ret (try_join (fst (RegisterClient_connect client [] (at_ws a))) hb))"

lemma connect_poll: "fst (RegisterClient_connect client queue io) = fst (RegisterClient_connect client [] io)"
  by (simp add: RegisterClient_connect_def split: ws_io.splits)

lemma attempt_poll_Ret:
  assumes "attempt_poll client unique a = Ret p"
  shows "\<exists>sent queue'. attempt_result client unique queue a = Ret (p, sent, queue')"
proof -
  obtain hb reports where hb: "heartbeat unique (at_beats a) = Ret (hb, reports)"
    and p: "p = try_join (fst (RegisterClient_connect client [] (at_ws a))) hb"
    using assms by (auto simp: attempt_poll_def exec_bind_Ret_iff)
  obtain ws sent queue' where ws:
    "RegisterClient_connect client (queue @ pushed reports (at_signal a)) (at_ws a) = (ws, sent, queue')"
    by (metis prod_cases3)
  then have "ws = fst (RegisterClient_connect client [] (at_ws a))"
    using connect_poll by (metis fst_conv)
  with hb ws p show ?thesis by (simp add: attempt_result_def)
qed

text \<open>An attempt that failed.\<close>

definition failed :: "RegisterClient \<Rightarrow> bool \<Rightarrow> attempt \<Rightarrow> bool" where
  "failed client unique a \<longleftrightarrow> (\<exists>e. attempt_poll client unique a = Ret (Ready (Inl e)))"

lemma failed_result:
  "failed client unique a \<Longrightarrow> \<exists>e sent queue'. attempt_result client unique queue a = Ret (Ready (Inl e), sent, queue')"
  unfolding failed_def using attempt_poll_Ret by blast

lemma register_loop_failures:
  assumes "list_all (failed client unique) as" "unat cur \<le> unat m" "unat m < 65535"
  shows "\<exists>sents. register_loop checks client unique m cur queue as =
    Ret (if unat m - unat cur < length as then Ready (Inl ''error during registration happened'') else Pending, sents)"
  using assms(1,2)
proof (induction "as" arbitrary: cur queue)
  case (Cons a as)
  then obtain e sent queue' where e: "attempt_result client unique queue a = Ret (Ready (Inl e), sent, queue')"
    using failed_result [of client unique a queue] by auto
  have cur: "unat (cur + 1) = unat cur + 1" "checked_add cur 1 \<noteq> None"
    using Cons.prems(2) assms(3) by (simp_all add: unat_word_ariths checked_add_def)
  show ?case
  proof (cases "unat cur = unat m")
    case True
    with cur have "cur + 1 > m" by (simp add: word_less_nat_alt)
    with e cur True show ?thesis by simp
  next
    case False
    with Cons.prems(2) cur have "\<not> cur + 1 > m" "unat (cur + 1) \<le> unat m" by (simp_all add: word_less_nat_alt)
    moreover from False Cons.prems(2) cur(1) have "unat m - unat cur < Suc k \<longleftrightarrow> unat m - unat (cur + 1) < k" for k
      by linarith
    ultimately show ?thesis
      using e cur Cons.IH [of "cur + 1" queue'] Cons.prems(1) by auto
  qed
qed simp

text \<open>
  C38. The agent gives up after exactly one failure more than \<open>MAX_REGISTRATION_ATTEMPTS\<close>, whether
  or not arithmetic is checked, if that number is below 65535.
\<close>

theorem RegisterAgent_gives_up:
  assumes "list_all (failed (RegisterClient_new url (register_request var uuid)) unique) as" and "MAX_REGISTRATION_ATTEMPTS var < 65535"
  shows "\<exists>sents. fst (RegisterAgent_run checks var uuid (RegisterAgent_new url) unique as) =
    Ret (if unat (MAX_REGISTRATION_ATTEMPTS var) < length as
         then Ready (Inl ''error during registration happened'') else Pending, sents)"
proof -
  have "unat (MAX_REGISTRATION_ATTEMPTS var) < 65535"
    using assms(2) by (simp add: word_less_nat_alt)
  from register_loop_failures [OF assms(1) _ this, of 0] show ?thesis
    by (simp add: agent_run_new)
qed

abbreviation refused :: attempt where
  "refused \<equiv> \<lparr>at_ws = (\<lambda>url. ConnectRefused ''refused''), at_beats = [], at_signal = None\<rparr>"

lemma refused_failed: "failed client unique refused"
  by (simp add: failed_def attempt_poll_def RegisterClient_connect_def)

theorem RegisterAgent_gives_up_witness:
  "\<exists>sents sents'. fst (RegisterAgent_run True [''MAX_REGISTRATION_ATTEMPTS'' \<mapsto> dec_string 1] ''id'' (RegisterAgent_new ''ws:'') True [refused]) = Ret (Pending, sents) \<and>
   fst (RegisterAgent_run True [''MAX_REGISTRATION_ATTEMPTS'' \<mapsto> dec_string 1] ''id'' (RegisterAgent_new ''ws:'') True [refused, refused]) =
     Ret (Ready (Inl ''error during registration happened''), sents')"
proof -
  let ?var = "[''MAX_REGISTRATION_ATTEMPTS'' \<mapsto> dec_string 1]"
  have "?var ''MAX_REGISTRATION_ATTEMPTS'' = Some (dec_string (unat (1 :: u16)))"
    by simp
  then have m: "MAX_REGISTRATION_ATTEMPTS ?var = 1"
    unfolding MAX_REGISTRATION_ATTEMPTS_def by (rule env_word_printed)
  then have lt: "MAX_REGISTRATION_ATTEMPTS ?var < 65535"
    by simp
  from RegisterAgent_gives_up [OF _ lt, of "''ws:''" "''id''" True "[refused]" True]
    RegisterAgent_gives_up [OF _ lt, of "''ws:''" "''id''" True "[refused, refused]" True] m
  show ?thesis by (simp add: refused_failed)
qed

text \<open>
  With \<open>MAX_REGISTRATION_ATTEMPTS\<close> at 65535 the agent does not give up: without overflow checks
  the counter wraps around and the loop goes on for ever; with them it panics.
\<close>

lemma max_attempts_never_reached:
  assumes "list_all (failed (RegisterClient_new url (register_request var uuid)) unique) as" and "MAX_REGISTRATION_ATTEMPTS var = 65535"
  shows "\<exists>sents. fst (RegisterAgent_run False var uuid (RegisterAgent_new url) unique as) = Ret (Pending, sents)"
proof -
  have never: "\<not> cur + 1 > (65535 :: u16)" for cur
    using u16_bound [of "cur + 1"] by (simp add: word_less_nat_alt)
  have "\<exists>sents. register_loop False client unique 65535 cur queue as = Ret (Pending, sents)"
    if "list_all (failed client unique) as" for client cur queue
    using that
  proof (induction "as" arbitrary: cur queue)
    case (Cons a as)
    then obtain e sent queue' where "attempt_result client unique queue a = Ret (Ready (Inl e), sent, queue')"
      using failed_result [of client unique a queue] by auto
    moreover obtain sents where "register_loop False client unique 65535 (cur + 1) queue' as = Ret (Pending, sents)"
      using Cons by auto
    ultimately show ?case using never [of cur] by simp
  qed simp
  with assms show ?thesis by (simp add: agent_run_new)
qed

section \<open>The heartbeat's reports\<close>

fun beat_ok :: "beat \<Rightarrow> bool" where
  "beat_ok b \<longleftrightarrow> (\<exists>n. hb_load b = Inr n) \<and> hb_send_err b = None"

fun beat_report :: "beat \<Rightarrow> ws_message" where
  "beat_report b = WsLoad \<lparr>lr_type = ''load'', lr_load = projr (hb_load b)\<rparr>"

text \<open>
  With the only reference to the load reporter the heartbeat does not panic; it sends one load
  report per beat, in order, up to the first beat on which reading the load or sending fails, and
  it ends at that beat.
\<close>

lemma heartbeat_Ret:
  "\<exists>p. heartbeat True bs = Ret (p, map beat_report (takeWhile beat_ok bs)) \<and> (p = Pending \<longleftrightarrow> list_all beat_ok bs)"
proof (induction bs)
  case (Cons b bs)
  then show ?case
    by (cases "hb_load b"; cases "hb_send_err b") auto
qed simp

section \<open>What goes over the web socket\<close>

definition attempt_pushes :: "attempt \<Rightarrow> ws_message list" where
  "attempt_pushes a = pushed (map beat_report (takeWhile beat_ok (at_beats a))) (at_signal a)"

lemma connect_forwards:
  assumes "RegisterClient_connect client queue io = (p, sent, queue')"
  shows "(sent = [] \<or> hd sent = WsRegister (rc_data client)) \<and> (\<exists>n m. tl sent = take n queue \<and> queue' = drop m queue \<and> n \<le> m)"
proof (cases "io (rc_url client)")
  case (SessionOpen n)
  with assms show ?thesis by (auto simp: RegisterClient_connect_def)
next
  case (SessionEnded n lost)
  with assms have "tl sent = take n queue" "queue' = drop (if lost then Suc n else n) queue" "hd sent = WsRegister (rc_data client)"
    by (auto simp: RegisterClient_connect_def)
  then show ?thesis by (metis (full_types) le_Suc_eq order_refl)
qed (use assms in \<open>auto simp: RegisterClient_connect_def intro!: exI [of _ "0 :: nat"]\<close>)

lemma attempt_forwards:
  assumes "attempt_result client True queue a = Ret (p, sent, queue')"
  shows "(sent = [] \<or> hd sent = WsRegister (rc_data client)) \<and>
    (subseq xs (queue' @ ys) \<longrightarrow> subseq (tl sent @ xs) ((queue @ attempt_pushes a) @ ys))"
proof -
  let ?q = "queue @ attempt_pushes a"
  obtain hb where "heartbeat True (at_beats a) = Ret (hb, map beat_report (takeWhile beat_ok (at_beats a)))"
    using heartbeat_Ret by blast
  with assms obtain ws where "RegisterClient_connect client ?q (at_ws a) = (ws, sent, queue')"
    by (auto simp: attempt_result_def attempt_pushes_def split: prod.splits)
  from connect_forwards [OF this] obtain n m where start: "sent = [] \<or> hd sent = WsRegister (rc_data client)"
    and sent: "tl sent = take n ?q" "queue' = drop m ?q" "n \<le> m"
    by blast
  have "subseq (queue' @ ys) (drop n ?q @ ys)"
    using sent(2,3) by (metis drop_drop le_add_diff_inverse2 list_emb_append_mono subseq_order.refl suffix_drop suffix_imp_subseq)
  then have "subseq (tl sent @ xs) (take n ?q @ drop n ?q @ ys)" if "subseq xs (queue' @ ys)"
    unfolding sent(1) using that by (meson list_emb_append_mono subseq_order.trans subseq_order.refl)
  then have "subseq xs (queue' @ ys) \<longrightarrow> subseq (tl sent @ xs) (?q @ ys)"
    by (metis append_assoc append_take_drop_id)
  with start show ?thesis by blast
qed

lemma register_loop_forwards:
  assumes "register_loop checks client True m cur queue as = Ret (p, sents)"
  shows "list_all (\<lambda>s. s = [] \<or> hd s = WsRegister (rc_data client)) sents \<and>
    subseq (concat (map tl sents)) (queue @ concat (map attempt_pushes as))"
  using assms
proof (induction "as" arbitrary: cur queue p sents)
  case (Cons a as)
  obtain r sent queue' where att: "attempt_result client True queue a = Ret (r, sent, queue')"
    using Cons.prems by (cases "attempt_result client True queue a") auto
  note fwd = attempt_forwards [OF att]
  consider (last) "sents = [sent]"
    | (more) cur' p' sents' where "register_loop checks client True m cur' queue' as = Ret (p', sents')" "sents = sent # sents'"
    using Cons.prems att by (auto simp: exec_bind_Ret_iff split: poll.splits sum.splits if_splits)
  then show ?case
  proof cases
    case last
    with fwd [of "[]" "concat (map attempt_pushes as)"] show ?thesis by simp
  next
    case (more cur' p' sents')
    from Cons.IH [OF more(1)] fwd [of "concat (map tl sents')" "concat (map attempt_pushes as)"] more(2) show ?thesis
      by simp
  qed
qed simp

text \<open>
  C39. What the control plane sees: every session starts with the registration, and the load reports
  and the deregistration that follow, over all sessions, are in the order in which they were put on
  the agent's channel, none of them twice.
\<close>

theorem agent_sends_in_order:
  assumes "fst (RegisterAgent_run checks var uuid (RegisterAgent_new url) True as) = Ret (p, sents)"
  shows "list_all (\<lambda>s. s = [] \<or> hd s = WsRegister (register_request var uuid)) sents \<and>
    subseq (concat (map tl sents)) (concat (map attempt_pushes as))"
  using register_loop_forwards [OF assms [unfolded agent_run_new]] by (simp add: RegisterClient_new_def)

abbreviation demo_beat :: "u32 \<Rightarrow> beat" where
  "demo_beat n \<equiv> \<lparr>hb_load = Inr n, hb_send_err = None\<rparr>"

theorem agent_sends_in_order_witness:
  "\<exists>sents. fst (RegisterAgent_run True Map.empty ''id'' (RegisterAgent_new ''ws:'') True
     [\<lparr>at_ws = (\<lambda>url. SessionEnded 1 False), at_beats = [demo_beat 10, demo_beat 20], at_signal = None\<rparr>,
      \<lparr>at_ws = (\<lambda>url. SessionOpen 2), at_beats = [demo_beat 30], at_signal = None\<rparr>]) = Ret (Pending, sents) \<and>
     length sents = 2 \<and>
     subseq (concat (map tl sents)) (map beat_report [demo_beat 10, demo_beat 20, demo_beat 30])"
proof -
  let ?as = "[\<lparr>at_ws = (\<lambda>url. SessionEnded 1 False), at_beats = [demo_beat 10, demo_beat 20], at_signal = None\<rparr>,
      \<lparr>at_ws = (\<lambda>url. SessionOpen 2), at_beats = [demo_beat 30], at_signal = None\<rparr>]"
  have "MAX_REGISTRATION_ATTEMPTS Map.empty = 10000"
    by (simp add: MAX_REGISTRATION_ATTEMPTS_def env_word_def)
  then obtain sents where run: "fst (RegisterAgent_run True Map.empty ''id'' (RegisterAgent_new ''ws:'') True ?as) = Ret (Pending, sents)" "length sents = 2"
    by (simp add: agent_run_new attempt_result_def RegisterClient_connect_def pushed_def checked_add_def)
  with agent_sends_in_order [OF run(1)] show ?thesis
    by (auto simp: attempt_pushes_def pushed_def)
qed

end
