(* ===== verification/Load.thy ===== *)
theory Load
  imports Complex_Main Prelude
begin

text \<open>
  The load reporter, \<^verbatim>\<open>src/manager/load.rs\<close>.  The \<open>sysinfo\<close> library is a parameter: \<open>refresh\<close> and
  \<open>usage\<close> stand for \<open>refresh_cpu_usage\<close> and \<open>global_cpu_usage\<close> on its \<open>System\<close>.  The reading is a
  32-bit float, converted to an integer with \<open>as\<close>; a finite float is kept as the rational number
  it denotes.
\<close>

section \<open>Floats as integers\<close>

datatype f32 = NaN | Infinite bool | Finite rat

text \<open>
  \<open>x as u32\<close>: towards zero, saturating at both ends, 0 for NaN; \<open>Infinite True\<close> is the negative one.
\<close>

definition u32_MAX :: nat where
  "u32_MAX = 4294967295"

fun f32_as_u32 :: "f32 \<Rightarrow> u32" where
  "f32_as_u32 NaN = 0"
| "f32_as_u32 (Infinite neg) = (if neg then 0 else of_nat u32_MAX)"
| "f32_as_u32 (Finite q) =
     (if q < 0 then 0 else if of_nat u32_MAX \<le> q then of_nat u32_MAX else of_nat (nat \<lfloor>q\<rfloor>))"

lemma unat_u32_of_nat: "n \<le> u32_MAX \<Longrightarrow> unat (of_nat n :: u32) = n"
  by (simp add: u32_MAX_def unat_of_nat)

lemma f32_as_u32_finite:
  assumes "0 \<le> q" "q < of_nat u32_MAX"
  shows "unat (f32_as_u32 (Finite q)) = nat \<lfloor>q\<rfloor>"
proof -
  have "\<lfloor>q\<rfloor> \<le> int u32_MAX"
    using assms(2) by (metis floor_less_iff of_int_of_nat_eq order_less_imp_le)
  then have "nat \<lfloor>q\<rfloor> \<le> u32_MAX" by simp
  moreover have "f32_as_u32 (Finite q) = of_nat (nat \<lfloor>q\<rfloor>)" using assms by simp
  ultimately show ?thesis by (simp only: unat_u32_of_nat)
qed

section \<open>The reporter\<close>

record ReportLoad =
  rl_percent :: u32

record 'sys ReportLoadSysProvider =
  rp_system :: 'sys

text \<open>\<open>new\<close>: the system is built by the library, and a failure is a panic (\<open>expect\<close>).\<close>

definition ReportLoadSysProvider_new :: "'sys result \<Rightarrow> 'sys ReportLoadSysProvider exec" where
  "ReportLoadSysProvider_new built =
     (case built of Inl e \<Rightarrow> Panic | Inr system \<Rightarrow> Ret \<lparr>rp_system = system\<rparr>)"

definition ReportLoadSysProvider_default :: "'sys result \<Rightarrow> 'sys ReportLoadSysProvider exec" where
  "ReportLoadSysProvider_default built = ReportLoadSysProvider_new built"

definition get_load :: "('sys \<Rightarrow> 'sys) \<Rightarrow> ('sys \<Rightarrow> f32) \<Rightarrow> 'sys ReportLoadSysProvider
    \<Rightarrow> ReportLoad result \<times> 'sys ReportLoadSysProvider" where
  "get_load refresh usage p =
     (let system = refresh (rp_system p) in
      (Inr \<lparr>rl_percent = f32_as_u32 (usage system)\<rparr>, p\<lparr>rp_system := system\<rparr>))"

text \<open>
  The reported load: reading it never fails, and if the library gives a percentage (its
  documented range is 0 to 100), then the reported number is that percentage rounded down, at
  most 100.
\<close>

lemma get_load_percent:
  assumes "usage (refresh (rp_system p)) = Finite q" and "0 \<le> q" and "q \<le> 100"
  shows "\<exists>n p'. get_load refresh usage p = (Inr \<lparr>rl_percent = n\<rparr>, p') \<and> unat n \<le> 100 \<and>
    of_nat (unat n) \<le> q \<and> q < of_nat (unat n) + 1"
proof -
  let ?n = "f32_as_u32 (Finite q)"
  have "q < of_nat u32_MAX" using assms(3) by (simp add: u32_MAX_def)
  then have n: "unat ?n = nat \<lfloor>q\<rfloor>"
    by (rule f32_as_u32_finite [OF assms(2)])
  have "0 \<le> \<lfloor>q\<rfloor>" "\<lfloor>q\<rfloor> \<le> 100" using assms(2,3) by (simp_all add: floor_le_iff)
  then have "of_nat (nat \<lfloor>q\<rfloor>) = (of_int \<lfloor>q\<rfloor> :: rat)" "nat \<lfloor>q\<rfloor> \<le> 100" by (simp, presburger)
  then have "unat ?n \<le> 100 \<and> of_nat (unat ?n) \<le> q \<and> q < of_nat (unat ?n) + 1"
    unfolding n using floor_correct [of q] by simp
  moreover have "get_load refresh usage p = (Inr \<lparr>rl_percent = ?n\<rparr>, p\<lparr>rp_system := refresh (rp_system p)\<rparr>)"
    by (simp only: get_load_def Let_def assms(1))
  ultimately show ?thesis by blast
qed

lemma get_load_percent_witness:
  "\<exists>n p'. get_load id (\<lambda>_. Finite (85 / 2)) \<lparr>rp_system = ()\<rparr> = (Inr \<lparr>rl_percent = n\<rparr>, p') \<and>
     unat n \<le> 100 \<and> of_nat (unat n) \<le> (85 / 2 :: rat)"
  using get_load_percent [of "\<lambda>_. Finite (85 / 2)" id "\<lparr>rp_system = ()\<rparr>" "85 / 2"] by auto

text \<open>What cannot be a percentage is cut to the range of the type.\<close>

lemma f32_as_u32_extremes:
  "f32_as_u32 NaN = 0" "f32_as_u32 (Finite (- 3 / 2)) = 0" "unat (f32_as_u32 (Infinite False)) = u32_MAX"
  by (simp_all add: unat_u32_of_nat del: of_nat_numeral)

end
