(* ===== verification/Main_Program.thy ===== *)
theory Main_Program
  imports Allocator Register Load
begin

text \<open>
  The program, \<^verbatim>\<open>src/main.rs\<close>: starting the parts in order, then running the metrics service, the
  allocator, the registration agent and the signal handler until the first of them fails.
\<close>

section \<open>Start-up\<close>

text \<open>
  What the calls of \<open>main\<close> give: the error of setting the buckets of the request times, of installing the metrics recorder, of building the
  \<open>sysinfo\<close> system and of registering for signals; the sockets of the pool; and how far each of
  the four services got.
\<close>

record ('sys, 'sig) main_io =
  mi_buckets :: "rat list \<Rightarrow> err option"
  mi_recorder :: "err option"
  mi_pool :: "nat \<Rightarrow> pool_io"
  mi_system :: "'sys result"
  mi_signals :: "err option"
  mi_metrics :: "string \<Rightarrow> service_io"
  mi_http :: "string \<Rightarrow> service_io"
  mi_agent :: "attempt list"
  mi_signal :: "'sig signal_io"

text \<open>
  \<open>setup_metrics_recorder\<close> sets the buckets, which the library refuses for an empty list, and
  installs the recorder; both are unwrapped.  \<open>MetricService::new\<close> starts with it, and the router
  it builds serves the one path of the metrics.
\<close>

definition EXPONENTIAL_SECONDS :: "rat list" where
  "EXPONENTIAL_SECONDS =
     [5 / 100000, 1 / 10000, 25 / 100000, 5 / 10000, 1 / 1000, 25 / 10000, 5 / 1000, 1 / 100, 25 / 1000, 5 / 100, 1 / 10]"

definition setup_metrics_recorder :: "(rat list \<Rightarrow> err option) \<Rightarrow> err option \<Rightarrow> unit exec" where
  "setup_metrics_recorder set_buckets install_err =
     (case set_buckets EXPONENTIAL_SECONDS of
        Some e \<Rightarrow> Panic
      | None \<Rightarrow> (case install_err of Some e \<Rightarrow> Panic | None \<Rightarrow> Ret ()))"

record MetricService =
  ms_path :: string

definition MetricService_new :: "environment \<Rightarrow> (rat list \<Rightarrow> err option) \<Rightarrow> err option \<Rightarrow> MetricService exec" where
  "MetricService_new var set_buckets install_err =
     exec_bind (setup_metrics_recorder set_buckets install_err) (\<lambda>_. Ret \<lparr>ms_path = METRICS_EXPOSE_PATH var\<rparr>)"

definition MetricService_start :: "(string \<Rightarrow> service_io) \<Rightarrow> u16 \<Rightarrow> unit result poll" where
  "MetricService_start io p = service_start io p"

text \<open>\<open>try_join!\<close> of the four services, polled in this order.  The agent may panic.\<close>

definition services :: "bool \<Rightarrow> environment \<Rightarrow> string \<Rightarrow> RegisterAgent \<Rightarrow> SignalHandler \<Rightarrow> ('sys, 'sig) main_io \<Rightarrow> unit result poll exec" where
  "services checks var uuid register_agent signal_hnadler io =
     exec_bind (fst (RegisterAgent_run checks var uuid register_agent True (mi_agent io))) (\<lambda>(agent, sents).
       Ret (try_join (MetricService_start (mi_metrics io) (METRICS_PORT var))
         (try_join (service_start (mi_http io) (SERVICE_PORT var))
           (try_join agent (fst (SignalHandler_run signal_hnadler (mi_signal io)))))))"

text \<open>
  \<open>main\<close>: the agent holds the only reference to the load reporter, which \<open>main\<close> moves into it.  The
  result of \<open>try_join!\<close> is discarded.
\<close>

definition main :: "bool \<Rightarrow> environment \<Rightarrow> string \<Rightarrow> ('sys, 'sig) main_io \<Rightarrow> unit result poll exec" where
  "main checks var uuid io =
     exec_bind (MetricService_new var (mi_buckets io) (mi_recorder io)) (\<lambda>metrics_exp.
       case with_udp_pool (UDP_POOL_SIZE var) (UDP_POOL_BASE_PORT var) (mi_pool io) of
         (Inl e, effs) \<Rightarrow> Ret (Ready (Inl e))
       | (Inr proxy_manager, effs) \<Rightarrow>
           exec_bind (ReportLoadSysProvider_new (mi_system io)) (\<lambda>load_reporter.
             case mi_signals io of
               Some e \<Rightarrow> Ret (Ready (Inl e))
             | None \<Rightarrow>
                 exec_bind (services checks var uuid (RegisterAgent_new (REGISTER_ENDPOINT var))
                     (SignalHandler_new (GRACEFULLL_SHUTDOWN_DELAY var)) io) (\<lambda>joined.
                   case joined of Pending \<Rightarrow> Ret Pending | Ready r \<Rightarrow> Ret (Ready (Inr ())))))"

text \<open>The status of the process: 0 for \<open>Ok\<close>, 1 for \<open>Err\<close>, 101 for a panic; \<open>None\<close> while it runs.\<close>

fun exit_status :: "unit result poll exec \<Rightarrow> nat option" where
  "exit_status Panic = Some 101"
| "exit_status (Ret Pending) = None"
| "exit_status (Ret (Ready (Inr u))) = Some 0"
| "exit_status (Ret (Ready (Inl e))) = Some 1"

section \<open>How the program ends\<close>

lemma try_join_error: "(\<exists>e. try_join p q = Ready (Inl e)) \<longleftrightarrow> (\<exists>e. p = Ready (Inl e) \<or> q = Ready (Inl e))"
  by (cases "(p, q)" rule: try_join.cases) auto

lemma try_join_ok: "try_join p q = Ready (Inr u) \<longleftrightarrow> p = Ready (Inr ()) \<and> q = Ready (Inr ())"
  by (cases "(p, q)" rule: try_join.cases) auto

lemma signal_not_ok: "fst (SignalHandler_run delay io) \<noteq> Ready (Inr u)"
  by (simp add: SignalHandler_run_def drained_def split: signal_io.splits option.splits)

lemma services_cases:
  assumes "fst (RegisterAgent_run checks var uuid ag True (mi_agent io)) = Ret (agent, sents)"
  shows "\<exists>p. services checks var uuid ag sh io = Ret p \<and>
    (p = Pending \<longleftrightarrow> (\<forall>e. MetricService_start (mi_metrics io) (METRICS_PORT var) \<noteq> Ready (Inl e) \<and> service_start (mi_http io) (SERVICE_PORT var) \<noteq> Ready (Inl e) \<and>
       agent \<noteq> Ready (Inl e) \<and> fst (SignalHandler_run sh (mi_signal io)) \<noteq> Ready (Inl e)))"
proof -
  let ?m = "MetricService_start (mi_metrics io) (METRICS_PORT var)" and ?h = "service_start (mi_http io) (SERVICE_PORT var)"
    and ?s = "fst (SignalHandler_run sh (mi_signal io))"
  define p where "p = try_join ?m (try_join ?h (try_join agent ?s))"
  have p: "services checks var uuid ag sh io = Ret p"
    by (simp add: services_def assms p_def)
  have "p \<noteq> Ready (Inr u)" for u
    unfolding p_def try_join_ok using signal_not_ok by blast
  then have "p = Pending \<longleftrightarrow> (\<nexists>e. p = Ready (Inl e))"
    by (metis poll.exhaust poll.distinct(1) sumE)
  moreover have "(\<exists>e. p = Ready (Inl e)) \<longleftrightarrow> (\<exists>e. ?m = Ready (Inl e)) \<or> (\<exists>e. ?h = Ready (Inl e)) \<or>
      (\<exists>e. agent = Ready (Inl e)) \<or> (\<exists>e. ?s = Ready (Inl e))"
    unfolding p_def by (simp only: try_join_error ex_disj_distrib)
  ultimately have "p = Pending \<longleftrightarrow> (\<forall>e. ?m \<noteq> Ready (Inl e) \<and> ?h \<noteq> Ready (Inl e) \<and> agent \<noteq> Ready (Inl e) \<and> ?s \<noteq> Ready (Inl e))"
    by blast
  with p show ?thesis by (intro exI conjI)
qed

text \<open>
  C40. How the program ends once it has started: it runs as long as none of the four services has
  failed, and ends as soon as one has; then its exit status is 0, whatever the failure was.
\<close>

theorem main_ends_with_success:
  assumes "mi_buckets io EXPONENTIAL_SECONDS = None" and "mi_recorder io = None" and "mi_signals io = None" and "mi_system io = Inr sys"
    and "fst (with_udp_pool (UDP_POOL_SIZE var) (UDP_POOL_BASE_PORT var) (mi_pool io)) = Inr pm"
    and "fst (RegisterAgent_run checks var uuid (RegisterAgent_new (REGISTER_ENDPOINT var)) True (mi_agent io)) = Ret (agent, sents)"
  shows "exit_status (main checks var uuid io) =
    (if \<exists>e. Ready (Inl e) \<in> {MetricService_start (mi_metrics io) (METRICS_PORT var),
          service_start (mi_http io) (SERVICE_PORT var), agent,
          fst (SignalHandler_run (SignalHandler_new (GRACEFULLL_SHUTDOWN_DELAY var)) (mi_signal io))}
     then Some 0 else None)"
proof -
  obtain p where p: "services checks var uuid (RegisterAgent_new (REGISTER_ENDPOINT var))
      (SignalHandler_new (GRACEFULLL_SHUTDOWN_DELAY var)) io = Ret p"
    and pending: "p = Pending \<longleftrightarrow> \<not> (\<exists>e. Ready (Inl e) \<in> {MetricService_start (mi_metrics io) (METRICS_PORT var),
          service_start (mi_http io) (SERVICE_PORT var), agent,
          fst (SignalHandler_run (SignalHandler_new (GRACEFULLL_SHUTDOWN_DELAY var)) (mi_signal io))})"
    using services_cases [OF assms(6)] by (auto; metis)
  obtain effs where "with_udp_pool (UDP_POOL_SIZE var) (UDP_POOL_BASE_PORT var) (mi_pool io) = (Inr pm, effs)"
    using assms(5) by (metis prod.collapse)
  then have "main checks var uuid io = Ret (case p of Pending \<Rightarrow> Pending | Ready r \<Rightarrow> Ready (Inr ()))"
    using assms(1-4) p
    by (simp add: main_def MetricService_new_def setup_metrics_recorder_def ReportLoadSysProvider_new_def split: poll.splits)
  with pending show ?thesis by (cases p) auto
qed

text \<open>
  The ends of the program: a signal and the drain period; a port that is taken; the control plane
  that cannot be reached.
\<close>

abbreviation demo_main :: "(unit, nat) main_io" where
  "demo_main \<equiv> \<lparr>mi_buckets = (\<lambda>bs. if bs = [] then Some ''empty'' else None), mi_recorder = None, mi_pool = demo_ios, mi_system = Inr (), mi_signals = None,
     mi_metrics = (\<lambda>_. Serving), mi_http = (\<lambda>_. Serving), mi_agent = [], mi_signal = NoSignal\<rparr>"

theorem main_ends_with_success_witness:
  "exit_status (main True Map.empty ''id'' demo_main) = None \<and>
   exit_status (main True Map.empty ''id'' (demo_main\<lparr>mi_http := (\<lambda>_. ListenErr ''address in use'')\<rparr>)) = Some 0 \<and>
   exit_status (main True Map.empty ''id'' (demo_main\<lparr>mi_signal := Signalled 15 None True\<rparr>)) = Some 0"
proof -
  have pool: "fst (with_udp_pool (UDP_POOL_SIZE Map.empty) (UDP_POOL_BASE_PORT Map.empty) demo_ios) =
      Inr (ProxyManager_new\<lparr>pm_udp_pool := [], pm_udp_mode := PerSession\<rparr>)"
    by (simp add: UDP_POOL_SIZE_def UDP_POOL_BASE_PORT_def env_word_def with_udp_pool_eq)
  have agent: "fst (RegisterAgent_run True Map.empty ''id'' (RegisterAgent_new (REGISTER_ENDPOINT Map.empty)) True []) = Ret (Pending, [])"
    by (simp add: agent_run_new)
  note ends = main_ends_with_success [where var = Map.empty and uuid = "''id''" and checks = True and sys = "()"
      and agent = Pending and sents = "[]"]
  show ?thesis
    using ends [where io = demo_main] ends [where io = "demo_main\<lparr>mi_http := (\<lambda>_. ListenErr ''address in use'')\<rparr>"]
      ends [where io = "demo_main\<lparr>mi_signal := Signalled 15 None True\<rparr>"] pool agent
    by (simp add: service_start_def MetricService_start_def EXPONENTIAL_SECONDS_def SignalHandler_run_def drained_def)
qed

section \<open>The agent with the real load reporter\<close>

text \<open>
  The beats of an attempt under \<open>main\<close>: the load is read from the system reporter, and the channel is
  open since the agent holds its receiving end.
\<close>

fun sys_beats :: "('sys \<Rightarrow> 'sys) \<Rightarrow> ('sys \<Rightarrow> f32) \<Rightarrow> nat \<Rightarrow> 'sys ReportLoadSysProvider \<Rightarrow> beat list" where
  "sys_beats refresh usage 0 p = []"
| "sys_beats refresh usage (Suc n) p =
     (case get_load refresh usage p of
        (r, p') \<Rightarrow> \<lparr>hb_load = map_sum id rl_percent r, hb_send_err = None\<rparr> # sys_beats refresh usage n p')"

lemma sys_beats_ok: "list_all beat_ok (sys_beats refresh usage n p)"
  by (induction n arbitrary: p) (simp_all add: get_load_def Let_def)

text \<open>The heartbeat does not end under \<open>main\<close>; an attempt fails only with its connection.\<close>

lemma sys_attempt_failed:
  assumes "at_beats a = sys_beats refresh usage n p"
  shows "failed client True a \<longleftrightarrow> (\<nexists>k. at_ws a (rc_url client) = SessionOpen k)"
proof -
  obtain q where hb: "heartbeat True (at_beats a) = Ret (q, map beat_report (takeWhile beat_ok (at_beats a)))"
    "q = Pending \<longleftrightarrow> list_all beat_ok (at_beats a)"
    using heartbeat_Ret by blast
  then have "q = Pending" using sys_beats_ok assms by simp
  with hb(1) show ?thesis
    by (cases "at_ws a (rc_url client)") (simp_all add: failed_def attempt_poll_def RegisterClient_connect_def)
qed

end
