(* ===== verification/Spec2Isabelle.thy ===== *)
theory Spec2Isabelle
  imports Stun_Tests Udp_Client Udp_Pooled Channel_Progress Tcp_System Endpoint_Registry Session_Tables Own_Session Register Main_Program
begin

text \<open>
  Verification of rrr-proxy, a media proxy for WebRTC servers.  A control plane asks it over HTTP
  for ports that lead to a target; clients then send UDP or TCP to these ports and the proxy
  relays between them and the target.  UDP is served in one of two modes: a socket per session,
  or a pool of shared sockets on which the ICE ufrag in a client's STUN binding request selects
  the target.

  \<^bold>\<open>Parts and how they interact.\<close>  The HTTP handlers (\<^verbatim>\<open>manager/endpoint.rs\<close>) call the
  \<open>ProxyManager\<close> (\<^verbatim>\<open>proxy.rs\<close>).  The manager sends requests to a task that owns the per-session
  endpoints, and control messages to the pooled sockets.  A per-session UDP endpoint
  (\<^verbatim>\<open>proxy/udp_client.rs\<close>), a pooled socket (\<^verbatim>\<open>proxy/udp_pooled.rs\<close>) and a TCP endpoint
  (\<^verbatim>\<open>proxy/tcp_clients.rs\<close>) are tasks with a \<open>select!\<close> loop; each starts one relay task per client
  and hears from it on a channel when it ends.  The pooled sockets read datagrams of unknown
  clients with the STUN reader (\<^verbatim>\<open>proxy/stun.rs\<close>).  Besides, an agent registers the proxy with the
  control plane (\<^verbatim>\<open>manager/register.rs\<close>) and reports the load of the machine to it
  (\<^verbatim>\<open>manager/load.rs\<close>), a second HTTP service exposes metrics (\<^verbatim>\<open>manager/pmetrics.rs\<close>), and
  \<^verbatim>\<open>main.rs\<close> starts the parts and joins them.  All settings come from the environment (\<^verbatim>\<open>lib.rs\<close>).

  \<^bold>\<open>How it is modelled.\<close>  A struct is a record, an enum a datatype, an integer a word of its width,
  a hash map a finite map, a fallible call a sum with the error's text, a call that may panic a
  value of \<open>exec\<close>.  A function that calls the runtime (sockets, channels, spawning, name
  resolution) takes the results of these calls as arguments and returns the effects it has in
  program order; so each theorem holds for every behaviour of the network and the kernel.  A task
  is a step function over events (the branch of \<open>select!\<close> that completed, with the results of the
  calls it makes), run by \<open>run_loop\<close> over any finite sequence of events: there is no fuel and no
  bound on the length of a run.  A handle to a task is kept together with the state of the task
  in the manager's record.  Timers are events without durations.

  \<^bold>\<open>Theories.\<close>
  \<^item> \<open>Prelude\<close>: words, results and panics, slices, UTF-8, integer parsing and printing, hash maps.
  \<^item> \<open>Event_Loop\<close>: \<open>run_loop\<close> and the contracts of tasks: \<open>event_loop\<close> (invariants, outputs,
    epilogue), \<open>resource_ledger\<close> and \<open>resource_owner\<close> (nothing acquired is lost track of).  They are
    interpreted for the relays, both kinds of UDP endpoint, TCP endpoints and the manager's task.
  \<^item> \<open>Route_Table\<close>: the contract between the manager and a pooled socket, with its specification by
    the history of operations; interpreted on the control messages in \<open>Udp_Pooled\<close>.
  \<^item> \<open>Metrics\<close>, \<open>Proxy_Types\<close>: counters; addresses, endpoints and messages (\<^verbatim>\<open>proxy.rs\<close> 23-141).
  \<^item> \<open>Stun\<close>: \<open>local_ufrag\<close> and the request builder.  The reader never panics; it accepts exactly
    the binding requests whose header, length field and attributes up to the first USERNAME are well
    formed (what follows it is not checked); it agrees with a reference that decodes first and
    searches then; reading back a built request gives its ufrag.  \<open>Stun_Tests\<close>: the module's unit tests,
    evaluated on the model.
  \<^item> \<open>Udp_Relay\<close>: \<open>ProxyClient\<close> (the relay), its handle and \<open>allocate_handler\<close>.  Datagrams are
    returned in order; a relay closes its channel and reports its end, in this order.
  \<^item> \<open>Relay_Host\<close>: the composition of a task with the relays it has started and the channel of their
    end reports, and the contract \<open>relay_host\<close> of such a task, from which ownership
    (\<open>resource_owner\<close>) and the agreement of client table and running relays follow; interpreted for
    per-session endpoints and pooled sockets.
  \<^item> \<open>Udp_Client\<close>: \<open>ProxyEndpoint\<close> and its handle.  An endpoint sends to its target only, loses no
    relay, reports its end once; its relays run only while registered.
  \<^item> \<open>Udp_Pooled\<close>: \<open>PooledUdpEndpoint\<close> with \<open>on_datagram\<close> and \<open>on_control\<close>, and its handle.  The
    routing invariant holds in every reachable state; isolation between sessions; the route table
    refines the history of control messages; relays are not leaked; the task does not die.
  \<^item> \<open>Channel_Progress\<close>: the turns of UDP tasks and relays cut into single effects, with channels of
    ten messages on which a sender may have to wait, and the contract \<open>chan_host\<close> of a task under
    which nobody waits for ever; interpreted for per-session endpoints and pooled sockets.
  \<^item> \<open>Tcp\<close>: \<open>ProxyTcpClient\<close>, \<open>ProxyTcpEndpoint\<close>.  The byte streams of a relay, the target of an
    endpoint, reports; where the code loses bytes or panics is stated as well.  \<open>Tcp_System\<close>: an
    endpoint together with its relays; it ends with the last of them, and they outlive it however it
    ends, since dropping its table of handles detaches them.
  \<^item> \<open>Manager_Task\<close>: the loop of \<open>ProxyManager::new\<close> and the four \<open>*_proxy_impl\<close>; the contract
    \<open>proxy_table\<close> of the two handler tables.  No endpoint is lost, every request is answered.
  \<^item> \<open>Endpoint_Registry\<close>: that task together with the endpoints it has started and their end reports;
    \<open>endpoint_registry\<close> extends \<open>proxy_table\<close> by the reports and is interpreted for both tables.
    Running endpoints are registered; what a panicked listener and a late report lead to.
  \<^item> \<open>Manager\<close>: \<open>ProxyManager\<close>: starting the pool, allocation, deletion, the same calls cut at an
    \<open>await\<close> by the HTTP timeout, and the invariant all of them keep.
  \<^item> \<open>Manager_System\<close>: the states reachable by interleaving calls, complete or cut, with steps of the
    tasks.  Listed sessions are routed; allocations do not panic on the pool and are spread
    evenly; deletion undoes allocation; what a failed or a cut call leaves behind.
  \<^item> \<open>Session_Tables\<close>: the converse for calls that are not cut: a pooled socket serves exactly the
    sessions the manager lists for its port.
  \<^item> \<open>Config\<close>, \<open>Allocator\<close>: the settings; the HTTP handlers and the stack of layers around them.  A
    request is shed, completes, or times out at one of its \<open>await\<close>s; what is deleted afterwards.
  \<^item> \<open>Own_Session\<close>: whatever becomes of a request, the entries of other sessions stay.
  \<^item> \<open>Register\<close>: the agent, its web socket client, heartbeat and retry loop, the channel between them
    and the signal handler.  It gives up after the configured number of failures, and sends what
    was queued in order.  \<open>Load\<close>: the load reporter and its float conversion.
  \<^item> \<open>Main_Program\<close>: start-up and the join of the four services; when the program ends and with
    which status.

  \<^bold>\<open>Bounds.\<close>  Lengths and ports are words and overflow is part of the statements: the STUN reader's
  sums on \<open>usize\<close>, the ports of the pool, the round-robin counter (whose theorem asks that it not
  wrap around within the sequence) and the attempt counter of the agent (16 bits).  A list stands
  for a buffer or queue of any length, since the capacity of a channel only delays a sender; that the
  delay ends is proved in \<open>Channel_Progress\<close>, where the capacities are those of the code.

  \<^bold>\<open>Not modelled.\<close>  The tokio runtime, sockets, the path matching and server loop of the HTTP
  library, JSON, the web socket, the metrics exporter and the \<open>sysinfo\<close> library are code the sources
  only call: their results are arguments.  When the layers of the HTTP service shed a request or
  time it out depends on the load and the clock; it is an argument as well (\<open>fate\<close>), as is every
  other moment in time.  Logging has no effect on the state, and \<^verbatim>\<open>ebpf\<close> is empty.

  This theory adds the properties that span all parts: from the HTTP request to the target, in
  either mode, for as long as the session or its endpoint lasts, and from the deletion of a session
  to the silence of its clients.
\<close>

section \<open>From the HTTP request to the target\<close>





section \<open>The same without a pool\<close>

lemma create_udp_internal_spawns:
  assumes cr: "create_udp_proxy_internal env pm ep io = (Inr p, pm', effs)"
    and new: "fmlookup (mt_udp_proxy (fst (manager_run env (pm_tx pm) (ci_ahead io)))) ep = None"
  shows "\<exists>target sock tid. socket_addr (env_resolve env) ep = Inr target \<and> mio_bind (ci_mgr io) = Bound p sock tid \<and>
    OfUdp (SpawnEndpoint tid (fresh_endpoint sock ep target)) \<in> set effs"
proof -
  obtain task1 effs1 where ahead: "manager_run env (pm_tx pm) (ci_ahead io) = (task1, effs1)" by fastforce
  from create_udp_internal_impl [OF cr ahead] new ahead show ?thesis
    by (auto simp: udp_impl_defs split: sum.splits bind_io.splits)
qed

text \<open>
  C3. End to end, one port per session: when an allocation has been answered and the session had no
  endpoint yet, a task was started that reads the socket behind the answered port.  Whatever happens
  to this task (datagrams from any addresses, failures, ends of relays, idle time), it sends datagrams
  and opens relays to the address the requested target resolves to and to no other.  As long as it has
  not ended, the next datagram of any client goes there, once, if a socket can be opened and written
  to; when it has ended, the manager has been told that the session's endpoint is gone.
\<close>

theorem allocated_port_reaches_target:
  assumes "pm_udp_mode pm = PerSession"
    and "allocate_proxy env pm request io = Ret (resp, pm', effs)" and "re_body resp = Some res"
    and "parse_word (rq_target_udp_port request) = Inr port"
    and "ep = Endpoint_new port (rq_target_ip request) (rq_session_id request)"
    and "fmlookup (mt_udp_proxy (fst (manager_run env (pm_tx pm) (ci_ahead (ac_udp io))))) ep = None"
  shows "\<exists>target sock tid. socket_addr (env_resolve env) ep = Inr target \<and>
    mio_bind (ci_mgr (ac_udp io)) = Bound (rs_proxy_udp_port res) sock tid \<and>
    OfUdp (SpawnEndpoint tid (fresh_endpoint sock ep target)) \<in> set effs \<and>
    (\<forall>tx es s outs ctl. ProxyEndpoint_run tx (fresh_endpoint sock ep target) es = (s, outs, ctl) \<longrightarrow>
      list_all (to_target target sock) outs \<and>
      (if ctl = Continue
       then \<forall>m addr sk ch t. \<exists>s' outs'.
         ProxyEndpoint_step tx s (EpRecv (Inr (m, addr)) (Connected sk ch t) quiet_send) = (s', outs', Continue) \<and>
         to_peers outs' = [(target, recv_buf m)]
       else ToManager (UdpEndpointEnded ep) \<in> set outs))"
proof -
  have create: "create_proxy env pm request io = Ret (Inr res, pm', effs)"
    by (rule allocate_proxy_ok(1) [OF assms(2,3)])
  then obtain p1 pm1 effs1 effs' where udp: "create_udp_proxy_internal env pm ep (ac_udp io) = (Inr p1, pm1, effs1)"
    and res: "rs_proxy_udp_port res = p1" "effs = effs1 @ effs'"
  proof (cases rule: create_proxy_cases)
    case (ssl port' ep' p1 pm1 effs1 p2 pm2 effs2 r3 effs3)
    from ssl(1) assms(4) have "port' = port" by simp
    with ssl(2,3) assms(1,5) have "create_udp_proxy_internal env pm ep (ac_udp io) = (Inr p1, pm1, effs1)"
      by (simp add: create_udp_by_mode_def)
    moreover from ssl(6) have "rs_proxy_udp_port res = p1" by (cases r3) auto
    ultimately show thesis using ssl(7) by (rule that)
  qed simp_all
  obtain target sock tid where spawn: "socket_addr (env_resolve env) ep = Inr target"
    "mio_bind (ci_mgr (ac_udp io)) = Bound (rs_proxy_udp_port res) sock tid"
    "OfUdp (SpawnEndpoint tid (fresh_endpoint sock ep target)) \<in> set effs"
    using create_udp_internal_spawns [OF udp assms(6)] res by auto
  show ?thesis
    by (rule exI [of _ target], rule exI [of _ sock], rule exI [of _ tid], intro conjI spawn allI impI)
      (erule ProxyEndpoint_only_target, use endpoint_serves in fastforce)
qed

theorem allocated_port_reaches_target_witness:
  "\<exists>pm effs target s outs. allocate_proxy demo_env ProxyManager_new demo_request demo_acall =
     Ret (\<lparr>re_status = OK, re_body = Some \<lparr>rs_proxy_udp_port = 4000, rs_proxy_tcp_port = 5000, rs_proxy_ssl_tcp_port = 0\<rparr>\<rparr>,
       pm, effs) \<and>
     OfUdp (SpawnEndpoint 12 (fresh_endpoint 11 demo_ep target)) \<in> set effs \<and>
     ProxyEndpoint_step 5 (fresh_endpoint 11 demo_ep target) (EpRecv (Inr ([1], V4 9 9)) (Connected 2 3 4) quiet_send) =
       (s, outs, Continue) \<and>
     to_peers outs = [(target, recv_buf [1])]"
proof -
  let ?res = "\<lparr>rs_proxy_udp_port = 4000, rs_proxy_tcp_port = 5000, rs_proxy_ssl_tcp_port = 0\<rparr>"
  obtain pm effs where alloc: "allocate_proxy demo_env ProxyManager_new demo_request demo_acall =
     Ret (\<lparr>re_status = OK, re_body = Some ?res\<rparr>, pm, effs)"
    by (simp add: allocate_proxy_def create_eval ProxyManager_new_def manager_new_def tcp_impl_defs udp_impl_defs)
  have "pm_udp_mode ProxyManager_new = PerSession" "re_body \<lparr>re_status = OK, re_body = Some ?res\<rparr> = Some ?res"
    "parse_word (rq_target_udp_port demo_request) = Inr (80 :: u16)"
    "demo_ep = Endpoint_new 80 (rq_target_ip demo_request) (rq_session_id demo_request)"
    "fmlookup (mt_udp_proxy (fst (manager_run demo_env (pm_tx ProxyManager_new) (ci_ahead (ac_udp demo_acall))))) demo_ep = None"
    by (simp_all add: demo_parse ProxyManager_new_def manager_new_def)
  from allocated_port_reaches_target [OF this(1) alloc this(2-5)]
  obtain target sock tid where e: "mio_bind (ci_mgr (ac_udp demo_acall)) = Bound (rs_proxy_udp_port ?res) sock tid"
    "OfUdp (SpawnEndpoint tid (fresh_endpoint sock demo_ep target)) \<in> set effs"
    and "\<forall>tx es s outs ctl. ProxyEndpoint_run tx (fresh_endpoint sock demo_ep target) es = (s, outs, ctl) \<longrightarrow>
      list_all (to_target target sock) outs \<and>
      (if ctl = Continue
       then \<forall>m addr sk ch t. \<exists>s' outs'.
         ProxyEndpoint_step tx s (EpRecv (Inr (m, addr)) (Connected sk ch t) quiet_send) = (s', outs', Continue) \<and>
         to_peers outs' = [(target, recv_buf m)]
       else ToManager (UdpEndpointEnded demo_ep) \<in> set outs)"
    by (elim exE conjE)
  note serves = this(3) [rule_format, THEN conjunct2]
  have "ProxyEndpoint_run 5 (fresh_endpoint sock demo_ep target) [] = (fresh_endpoint sock demo_ep target, [], Continue)"
    by (simp add: ProxyEndpoint_run_def)
  from serves [OF this] e alloc show ?thesis by auto
qed

section \<open>After a deletion\<close>

lemma last_session_client:
  assumes "on_control t (RemoveSession sid rt) = (t', effs)" "fmlookup (u_sessions t) sid = Some u"
    and "\<not> hm_any_value (fmdrop sid (u_sessions t)) u"
    and "\<And>c. fmlookup (u_clients t) a = Some c \<Longrightarrow> p_ufrag c = u"
  shows "fmlookup (u_clients t') a = None"
proof (rule ccontr)
  assume "fmlookup (u_clients t') a \<noteq> None"
  then obtain c where c: "fmlookup (u_clients t') a = Some c" by auto
  then have "p_ufrag c = u" using on_control_client [OF assms(1)] assms(4) by blast
  with c have "fmlookup (hm_retain (\<lambda>a c. p_ufrag c = u) (u_clients t')) a = Some c" by simp
  with remove_last_session [OF assms(1-3)] show False by simp
qed

text \<open>
  C4. End to end, after a deletion in pooled mode: when the only session of an ufrag is deleted over
  HTTP, the answer is 200 and the relays of all its clients are aborted.  From then on, whatever else
  happens on the socket, a client of that session (or a new one) that shows nothing but this ufrag is
  neither relayed nor forwarded, until a new allocation routes the ufrag again: its datagrams are
  counted and dropped.
\<close>

theorem deleted_session_cut_off:
  assumes "calls_reachable env pm" and "pm_udp_mode pm = Pooled" and "(h, t) \<in> set (pm_udp_pool pm)"
    and "fmlookup (u_sessions t) sid = Some u" and "\<not> hm_any_value (fmdrop sid (u_sessions t)) u"
    and "ci_net udp_io = Delivered"
  shows "\<exists>pm' t' effs.
    delete_proxy env pm (ph_local_port h) sid udp_io tcp_io = (status_response OK, pm', map OfUdp effs) \<and>
    (h, t') \<in> set (pm_udp_pool pm') \<and>
    (\<forall>a c. fmlookup (u_clients t) a = Some c \<longrightarrow> p_ufrag c = u \<longrightarrow> h_handler (p_handler c) \<in> aborted effs) \<and>
    (\<forall>a es s outs d known al send. (\<forall>c. fmlookup (u_clients t) a = Some c \<longrightarrow> p_ufrag c = u) \<longrightarrow>
      PooledUdpEndpoint_run tx t' es = (s, outs, Continue) \<longrightarrow> list_all (leaves_out a u) es \<longrightarrow>
      leaves_out a u (PooledRecv (Inr (d, a)) known al send) \<longrightarrow>
      PooledUdpEndpoint_step tx s (PooledRecv (Inr (d, a)) known al send) =
        (s, [Incr IN_CLIENT_UDP_MESSAGE, Incr UNROUTED_POOLED_UDP_MESSAGE], Continue))"
proof -
  from delete_served_session [OF assms(1-3) _ assms(6), of sid] assms(4)
  obtain pm' t' effs where del: "delete_udp_proxy env pm (ph_local_port h) sid udp_io = (Inr (), pm', map OfUdp effs)"
    "on_control t (RemoveSession sid (ci_rt udp_io)) = (t', effs)" "(h, t') \<in> set (pm_udp_pool pm')"
    by (auto simp: fmlookup_dom_iff)
  note last = remove_last_session [OF del(2) assms(4,5)]
  have "pooled_wf t"
    using calls_reachable_exact [OF assms(1)] assms(3)
    by (auto simp: unlisted_unserved_def manager_wf_def list_all_iff)
  then have wf: "pooled_wf t'" using del(2) by (rule on_control_wf)
  have silent: "PooledUdpEndpoint_step tx s (PooledRecv (Inr (d, a)) known al send) =
      (s, [Incr IN_CLIENT_UDP_MESSAGE, Incr UNROUTED_POOLED_UDP_MESSAGE], Continue)"
    if "\<forall>c. fmlookup (u_clients t) a = Some c \<longrightarrow> p_ufrag c = u" "PooledUdpEndpoint_run tx t' es = (s, outs, Continue)"
      "list_all (leaves_out a u) es" "leaves_out a u (PooledRecv (Inr (d, a)) known al send)"
    for a es s outs d known al send
  proof -
    have "fmlookup (u_clients t') a = None"
      using last_session_client [OF del(2) assms(4,5)] that(1) by blast
    from run_leaves_out [OF wf _ this that(2,3)] last that(4) show ?thesis
      by (intro unrouted_datagram_dropped) auto
  qed
  show ?thesis
  proof (intro exI conjI allI impI)
    show "delete_proxy env pm (ph_local_port h) sid udp_io tcp_io = (status_response OK, pm', map OfUdp effs)"
      using del(1) by (simp add: delete_proxy_def)
    show "(h, t') \<in> set (pm_udp_pool pm')" by (rule del(3))
    show "h_handler (p_handler c) \<in> aborted effs"
      if "fmlookup (u_clients t) a = Some c" "p_ufrag c = u" for a c
      using last that by blast
  qed (rule silent)
qed

text \<open>A session allocated on a pool of two sockets and deleted again.\<close>

theorem deleted_session_cut_off_witness:
  "\<exists>pm pm' t' effs h. calls_reachable demo_env pm \<and> (h, t') \<in> set (pm_udp_pool pm') \<and>
     delete_proxy demo_env pm 4000 ''s'' demo_call demo_call = (status_response OK, pm', map OfUdp effs) \<and>
     PooledUdpEndpoint_step 5 t' (PooledRecv (Inr ([1], V4 9 9)) quiet_send (BindErr []) quiet_send) =
       (t', [Incr IN_CLIENT_UDP_MESSAGE, Incr UNROUTED_POOLED_UDP_MESSAGE], Continue)"
proof -
  obtain pm effs where alloc: "create_proxy demo_env demo_pooled demo_request demo_acall =
      Ret (Inr \<lparr>rs_proxy_udp_port = 4000, rs_proxy_tcp_port = 5000, rs_proxy_ssl_tcp_port = 0\<rparr>, pm, effs)"
    "pm_udp_mode pm = Pooled" 
    "list_ex (\<lambda>(h, t). ph_local_port h = 4000 \<and> u_sessions t = fmupd ''s'' ''u'' fmempty \<and> u_clients t = fmempty)
       (pm_udp_pool pm)"
    by (simp add: create_eval ProxyManager_new_def bound_handle_def PooledUdpEndpoint_new_def manager_new_def
      tcp_impl_defs)
  then obtain h t where ht: "(h, t) \<in> set (pm_udp_pool pm)" "ph_local_port h = 4000"
    "u_sessions t = fmupd ''s'' ''u'' fmempty" "u_clients t = fmempty"
    by (auto simp: list_ex_iff)
  have "calls_reachable demo_env demo_pooled"
    by (rule calls_start [OF demo_started]) (simp only: demo_ports, simp)
  then have reach: "calls_reachable demo_env pm" by (rule calls_allocate [OF _ alloc(1)])
  have "fmlookup (u_sessions t) ''s'' = Some ''u''" "\<not> hm_any_value (fmdrop ''s'' (u_sessions t)) ''u''"
    "ci_net demo_call = Delivered"
    by (simp_all add: ht(3) hm_any_value_iff)
  from deleted_session_cut_off [OF reach alloc(2) ht(1) this, of demo_call 5]
  obtain pm' t' effs' where del: "delete_proxy demo_env pm 4000 ''s'' demo_call demo_call = (status_response OK, pm', map OfUdp effs')"
    "(h, t') \<in> set (pm_udp_pool pm')"
    "\<forall>a es s outs d known al send. (\<forall>c. fmlookup (u_clients t) a = Some c \<longrightarrow> p_ufrag c = ''u'') \<longrightarrow>
      PooledUdpEndpoint_run 5 t' es = (s, outs, Continue) \<longrightarrow> list_all (leaves_out a ''u'') es \<longrightarrow>
      leaves_out a ''u'' (PooledRecv (Inr (d, a)) known al send) \<longrightarrow>
      PooledUdpEndpoint_step 5 s (PooledRecv (Inr (d, a)) known al send) =
        (s, [Incr IN_CLIENT_UDP_MESSAGE, Incr UNROUTED_POOLED_UDP_MESSAGE], Continue)"
    unfolding ht(2) by blast
  have "local_ufrag (recv_buf [1]) = Ret None" by (simp add: recv_buf_id local_ufrag_short)
  then have "PooledUdpEndpoint_step 5 t' (PooledRecv (Inr ([1], V4 9 9)) quiet_send (BindErr []) quiet_send) =
       (t', [Incr IN_CLIENT_UDP_MESSAGE, Incr UNROUTED_POOLED_UDP_MESSAGE], Continue)"
    by (intro del(3) [rule_format, where es = "[]" and outs = "[]"])
       (simp_all add: ht(4) PooledUdpEndpoint_run_def)
  with reach del(1,2) show ?thesis by blast
qed

end
